theory Spec2Isabelle
  imports Main
begin

section \<open>The Perl Navigator server: diagnostics orchestration\<close>

text \<open>
  A shallow embedding of \<^verbatim>\<open>server/src/server.ts\<close>. The server is a single-threaded
  event loop: every handler and every segment of the asynchronous function
  \<^verbatim>\<open>validatePerlDocument\<close> between two \<^verbatim>\<open>await\<close>s runs to completion before
  anything else happens. The model is a deterministic step function on the server's
  state; one step is one handler invocation, one settlement of an external promise, or
  one resumption of a suspended validation run. Everything sent to the outside (the
  connection, the two analyses, the console) is appended to a log of effects.
\<close>

subsection \<open>Data\<close>

type_synonym DocumentUri = string

text \<open>An LSP diagnostic: opaque to the server, which only concatenates lists of them.\<close>

record Diagnostic =
  startLine :: nat
  startCharacter :: nat
  endLine :: nat
  endCharacter :: nat
  severity :: nat
  message :: string
  source :: string

text \<open>The fields of \<^verbatim>\<open>NavigatorSettings\<close>, as the literal \<^verbatim>\<open>defaultSettings\<close> lists them.\<close>

record NavigatorSettings =
  perlPath :: string
  enableAllWarnings :: bool
  perlcriticPath :: string
  perlcriticProfile :: string
  severity5 :: string
  severity4 :: string
  severity3 :: string
  severity2 :: string
  severity1 :: string
  includePaths :: "string list"

definition defaultSettings :: NavigatorSettings where
  "defaultSettings =
     \<lparr>perlPath = ''perl'', enableAllWarnings = False, perlcriticPath = ''perlcritic'',
      perlcriticProfile = '''', severity5 = ''warning'', severity4 = ''hint'',
      severity3 = ''hint'', severity2 = ''hint'', severity1 = ''hint'',
      includePaths = []\<rparr>"

record TextDocument =
  uri :: DocumentUri
  content :: string

text \<open>
  The payload of a configuration-change notification, as far as the handler reads it.
  The protocol gives \<^verbatim>\<open>change.settings\<close> the type \<^verbatim>\<open>any\<close>: it is \<^verbatim>\<open>null\<close> or
  \<^verbatim>\<open>undefined\<close> (\<open>NoSettings\<close>), or a value with properties, whose property
  \<^verbatim>\<open>perlnavigator\<close> is absent or falsy (\<open>Settings None\<close>) or is a settings record.
\<close>

datatype ConfigurationChange = NoSettings | Settings "NavigatorSettings option"

text \<open>The result of \<^verbatim>\<open>getWorkspaceFolders\<close>: a list of folder URIs, or \<^verbatim>\<open>null\<close>.\<close>

type_synonym WorkspaceFolders = "string list option"

text \<open>
  What is thrown: the \<^verbatim>\<open>TypeError\<close> of reading a property of \<^verbatim>\<open>null\<close> or
  \<^verbatim>\<open>undefined\<close>, the \<^verbatim>\<open>URIError\<close> of decoding a malformed URI, or the reason a promise
  was rejected with.
\<close>

datatype error = TypeError | URIError | Failure string

datatype 'a promise = Pending | Fulfilled 'a | Rejected error

fun settle :: "error + 'a \<Rightarrow> 'a promise" where
  "settle (Inl e) = Rejected e"
| "settle (Inr v) = Fulfilled v"

text \<open>
  A \<^verbatim>\<open>Thenable<NavigatorSettings>\<close> as \<^verbatim>\<open>getDocumentSettings\<close> returns it: either
  \<^verbatim>\<open>Promise.resolve(globalSettings)\<close>, or the promise of a
  \<^verbatim>\<open>connection.workspace.getConfiguration\<close> request, named by the request's number.
\<close>

datatype thenable = Resolved NavigatorSettings | Request nat

datatype logline = CompilationTime | PerlCriticTime | FileChangeEvent

text \<open>
  What the server does to the outside. The two analyses get the file path, the
  workspace folders and the settings. The number in the calls of a run is the run's.
\<close>

datatype effect =
    GetConfiguration DocumentUri
  | GetWorkspaceFolders nat
  | Perlcompile nat string WorkspaceFolders NavigatorSettings
  | Perlcritic nat string WorkspaceFolders NavigatorSettings
  | SendDiagnostics DocumentUri "Diagnostic list"
  | ConsoleLog logline

text \<open>
  Where an invocation of \<^verbatim>\<open>validatePerlDocument\<close> is suspended, with the local
  variables that are live there: at \<^verbatim>\<open>await getDocumentSettings(...)\<close>, at
  \<^verbatim>\<open>await connection.workspace.getWorkspaceFolders()\<close> (with \<^verbatim>\<open>settings\<close> and
  \<^verbatim>\<open>filePath\<close>), at \<^verbatim>\<open>await pCompile\<close>, at \<^verbatim>\<open>await pCritic\<close> (with \<^verbatim>\<open>diagPerl\<close>);
  or it has returned, or it has thrown: an awaited promise was rejected, or the URI
  could not be parsed.
\<close>

datatype phase =
    AwaitSettings thenable
  | AwaitFolders NavigatorSettings string
  | AwaitCompile
  | AwaitCritic "Diagnostic list"
  | Returned
  | Thrown error

text \<open>
  One validation run. The three promises are \<open>None\<close> until the run has made the call
  that creates them.
\<close>

record run =
  textDocument :: TextDocument
  phase :: phase
  pFolders :: "WorkspaceFolders promise option"
  pCompile :: "Diagnostic list promise option"
  pCritic :: "Diagnostic list promise option"

record server =
  hasConfigurationCapability :: bool
  globalSettings :: NavigatorSettings
  documentSettings :: "DocumentUri \<rightharpoonup> thenable"
  documentDiags :: "DocumentUri \<rightharpoonup> Diagnostic list"
  documents :: "TextDocument list"
  requests :: "NavigatorSettings promise list"
  runs :: "run list"
  effects :: "effect list"

text \<open>The state once \<^verbatim>\<open>onInitialize\<close> has recorded the client's capability.\<close>

definition initial :: "bool \<Rightarrow> server" where
  "initial cap =
     \<lparr>hasConfigurationCapability = cap, globalSettings = defaultSettings,
      documentSettings = Map.empty, documentDiags = Map.empty, documents = [],
      requests = [], runs = [], effects = []\<rparr>"

subsection \<open>The settings cache\<close>

fun thenable_state :: "server \<Rightarrow> thenable \<Rightarrow> NavigatorSettings promise" where
  "thenable_state s (Resolved v) = Fulfilled v"
| "thenable_state s (Request i) = (if i < length (requests s) then requests s ! i else Pending)"

text \<open>
  \<^verbatim>\<open>getDocumentSettings\<close>. A cached thenable is an object, so \<^verbatim>\<open>!result\<close> holds
  exactly when the map has no entry.
\<close>

definition getDocumentSettings :: "server \<Rightarrow> DocumentUri \<Rightarrow> thenable \<times> server" where
  "getDocumentSettings s resource =
     (if \<not> hasConfigurationCapability s then (Resolved (globalSettings s), s)
      else case documentSettings s resource of
        Some result \<Rightarrow> (result, s)
      | None \<Rightarrow>
          (let result = Request (length (requests s))
           in (result,
               s\<lparr>requests := requests s @ [Pending],
                 effects := effects s @ [GetConfiguration resource],
                 documentSettings := (documentSettings s)(resource \<mapsto> result)\<rparr>)))"

subsection \<open>Validation runs\<close>

text \<open>
  Calling \<^verbatim>\<open>validatePerlDocument\<close>: the body runs up to its first \<^verbatim>\<open>await\<close>, so
  \<^verbatim>\<open>getDocumentSettings\<close> is called at once, and the run is suspended on its result.
\<close>

definition validatePerlDocument :: "server \<Rightarrow> TextDocument \<Rightarrow> server" where
  "validatePerlDocument s d =
     (case getDocumentSettings s (uri d) of
        (result, s') \<Rightarrow>
          s'\<lparr>runs := runs s' @
                [\<lparr>textDocument = d, phase = AwaitSettings result, pFolders = None,
                  pCompile = None, pCritic = None\<rparr>]\<rparr>)"

definition set_run :: "server \<Rightarrow> nat \<Rightarrow> run \<Rightarrow> server" where
  "set_run s r x = s\<lparr>runs := (runs s)[r := x]\<rparr>"

definition throw :: "server \<Rightarrow> nat \<Rightarrow> run \<Rightarrow> error \<Rightarrow> server" where
  "throw s r x e = set_run s r (x\<lparr>phase := Thrown e\<rparr>)"

text \<open>
  Lines 150 to 154: the settings have arrived. \<^verbatim>\<open>Uri.parse(textDocument.uri).fsPath\<close>
  belongs to the library \<^verbatim>\<open>vscode-uri\<close>, which is not part of the source; it is the
  parameter \<open>fsPath\<close>, which gives the file path or the error that the library throws (it
  decodes the percent-escapes of the URI, and a malformed escape is a \<^verbatim>\<open>URIError\<close>).
  When it throws, the invocation ends there, before the workspace folders are asked for.
\<close>

definition after_settings ::
  "(DocumentUri \<Rightarrow> error + string) \<Rightarrow> server \<Rightarrow> nat \<Rightarrow> run \<Rightarrow> NavigatorSettings \<Rightarrow> server"
where
  "after_settings fsPath s r x settings =
     (case fsPath (uri (textDocument x)) of
        Inl e \<Rightarrow> throw s r x e
      | Inr filePath \<Rightarrow>
          set_run (s\<lparr>effects := effects s @ [GetWorkspaceFolders r]\<rparr>) r
            (x\<lparr>phase := AwaitFolders settings filePath, pFolders := Some Pending\<rparr>))"

text \<open>Lines 155 to 158: start both analyses, then wait for the first.\<close>

definition dispatch ::
  "server \<Rightarrow> nat \<Rightarrow> run \<Rightarrow> NavigatorSettings \<Rightarrow> string \<Rightarrow> WorkspaceFolders \<Rightarrow> server"
where
  "dispatch s r x settings filePath workspaceFolders =
     set_run
       (s\<lparr>effects := effects s @
            [Perlcompile r filePath workspaceFolders settings,
             Perlcritic r filePath workspaceFolders settings]\<rparr>) r
       (x\<lparr>phase := AwaitCompile, pCompile := Some Pending, pCritic := Some Pending\<rparr>)"

text \<open>
  Lines 159 to 168. \<^verbatim>\<open>allDiags\<close> is an array or \<^verbatim>\<open>undefined\<close>, and every array is
  truthy, so the test is whether the map has an entry.
\<close>

definition stage1 :: "server \<Rightarrow> nat \<Rightarrow> run \<Rightarrow> Diagnostic list \<Rightarrow> server" where
  "stage1 s r x diagPerl =
     (let allDiags = documentDiags s (uri (textDocument x));
          mixOldAndNew = (case allDiags of None \<Rightarrow> diagPerl | Some old \<Rightarrow> diagPerl @ old)
      in set_run
           (s\<lparr>effects := effects s @
                [ConsoleLog CompilationTime,
                 SendDiagnostics (uri (textDocument x)) mixOldAndNew]\<rparr>) r
           (x\<lparr>phase := AwaitCritic diagPerl\<rparr>))"

text \<open>Lines 169 to 174.\<close>

definition stage2 :: "server \<Rightarrow> nat \<Rightarrow> run \<Rightarrow> Diagnostic list \<Rightarrow> Diagnostic list \<Rightarrow> server" where
  "stage2 s r x diagPerl diagCritic =
     (let allNewDiags = diagPerl @ diagCritic
      in set_run
           (s\<lparr>documentDiags := (documentDiags s)(uri (textDocument x) \<mapsto> diagCritic),
              effects := effects s @
                [ConsoleLog PerlCriticTime,
                 SendDiagnostics (uri (textDocument x)) allNewDiags]\<rparr>) r
           (x\<lparr>phase := Returned\<rparr>))"

text \<open>
  The scheduler resumes run \<open>r\<close>. If the promise it awaits is still pending nothing
  happens; if it was rejected, \<^verbatim>\<open>await\<close> throws and, there being no handler, the
  invocation ends; otherwise the run continues to its next \<^verbatim>\<open>await\<close>.
\<close>

definition resume_run ::
  "(DocumentUri \<Rightarrow> error + string) \<Rightarrow> server \<Rightarrow> nat \<Rightarrow> run \<Rightarrow> server"
where
  "resume_run fsPath s r x =
     (case phase x of
        AwaitSettings result \<Rightarrow>
          (case thenable_state s result of
             Pending \<Rightarrow> s
           | Fulfilled settings \<Rightarrow> after_settings fsPath s r x settings
           | Rejected e \<Rightarrow> throw s r x e)
      | AwaitFolders settings filePath \<Rightarrow>
          (case pFolders x of
             Some (Fulfilled workspaceFolders) \<Rightarrow>
               dispatch s r x settings filePath workspaceFolders
           | Some (Rejected e) \<Rightarrow> throw s r x e
           | _ \<Rightarrow> s)
      | AwaitCompile \<Rightarrow>
          (case pCompile x of
             Some (Fulfilled diagPerl) \<Rightarrow> stage1 s r x diagPerl
           | Some (Rejected e) \<Rightarrow> throw s r x e
           | _ \<Rightarrow> s)
      | AwaitCritic diagPerl \<Rightarrow>
          (case pCritic x of
             Some (Fulfilled diagCritic) \<Rightarrow> stage2 s r x diagPerl diagCritic
           | Some (Rejected e) \<Rightarrow> throw s r x e
           | _ \<Rightarrow> s)
      | Returned \<Rightarrow> s
      | Thrown e \<Rightarrow> s)"

definition resume :: "(DocumentUri \<Rightarrow> error + string) \<Rightarrow> server \<Rightarrow> nat \<Rightarrow> server" where
  "resume fsPath s r =
     (if r < length (runs s) then resume_run fsPath s r (runs s ! r) else s)"

subsection \<open>Handlers\<close>

text \<open>
  Lines 104 to 111 of \<^verbatim>\<open>onDidChangeConfiguration\<close>. Without the capability the handler
  reads \<^verbatim>\<open>change.settings.perlnavigator\<close>, which throws a \<^verbatim>\<open>TypeError\<close> when
  \<^verbatim>\<open>change.settings\<close> is \<^verbatim>\<open>null\<close> or \<^verbatim>\<open>undefined\<close>; nothing has been written then.
\<close>

definition applyConfigurationChange :: "server \<Rightarrow> ConfigurationChange \<Rightarrow> error + server" where
  "applyConfigurationChange s change =
     (if hasConfigurationCapability s then Inr (s\<lparr>documentSettings := Map.empty\<rparr>)
      else case change of
        NoSettings \<Rightarrow> Inl TypeError
      | Settings perlnavigator \<Rightarrow>
          Inr (s\<lparr>globalSettings :=
                   (case perlnavigator of Some v \<Rightarrow> v | None \<Rightarrow> defaultSettings)\<rparr>))"

text \<open>
  Line 113: \<^verbatim>\<open>documents.all().forEach(validatePerlDocument)\<close>, which the handler reaches
  only when the lines before it have not thrown.
\<close>

definition onDidChangeConfiguration :: "server \<Rightarrow> ConfigurationChange \<Rightarrow> error + server" where
  "onDidChangeConfiguration s change =
     (case applyConfigurationChange s change of
        Inl e \<Rightarrow> Inl e
      | Inr s' \<Rightarrow> Inr (foldl validatePerlDocument s' (documents s')))"

definition onDidClose :: "server \<Rightarrow> TextDocument \<Rightarrow> server" where
  "onDidClose s d =
     s\<lparr>documentSettings := (documentSettings s)(uri d := None),
       documentDiags := (documentDiags s)(uri d := None),
       effects := effects s @ [SendDiagnostics (uri d) []]\<rparr>"

text \<open>
  The document manager \<^verbatim>\<open>TextDocuments\<close> keeps the open documents in a map keyed by
  URI: opening sets the entry, closing deletes it, each before the handler is called.
\<close>

fun docs_set :: "TextDocument list \<Rightarrow> TextDocument \<Rightarrow> TextDocument list" where
  "docs_set [] d = [d]"
| "docs_set (x # xs) d = (if uri x = uri d then d # xs else x # docs_set xs d)"

definition docs_delete :: "TextDocument list \<Rightarrow> DocumentUri \<Rightarrow> TextDocument list" where
  "docs_delete ds u = filter (\<lambda>x. uri x \<noteq> u) ds"

subsection \<open>The event loop\<close>

datatype event =
    DidOpen TextDocument
  | DidSave TextDocument
  | DidClose TextDocument
  | DidChangeConfiguration ConfigurationChange
  | DidChangeWatchedFiles
  | ConfigurationSettled nat "error + NavigatorSettings"
  | WorkspaceFoldersSettled nat "error + WorkspaceFolders"
  | PerlcompileSettled nat "error + Diagnostic list"
  | PerlcriticSettled nat "error + Diagnostic list"
  | Resume nat

text \<open>A promise is settled once: settling one that is not pending changes nothing.\<close>

definition settle_request :: "server \<Rightarrow> nat \<Rightarrow> error + NavigatorSettings \<Rightarrow> server" where
  "settle_request s i res =
     (if i < length (requests s) \<and> requests s ! i = Pending
      then s\<lparr>requests := (requests s)[i := settle res]\<rparr> else s)"

definition settle_folders :: "server \<Rightarrow> nat \<Rightarrow> error + WorkspaceFolders \<Rightarrow> server" where
  "settle_folders s r res =
     (if r < length (runs s) \<and> pFolders (runs s ! r) = Some Pending
      then set_run s r ((runs s ! r)\<lparr>pFolders := Some (settle res)\<rparr>) else s)"

definition settle_compile :: "server \<Rightarrow> nat \<Rightarrow> error + Diagnostic list \<Rightarrow> server" where
  "settle_compile s r res =
     (if r < length (runs s) \<and> pCompile (runs s ! r) = Some Pending
      then set_run s r ((runs s ! r)\<lparr>pCompile := Some (settle res)\<rparr>) else s)"

definition settle_critic :: "server \<Rightarrow> nat \<Rightarrow> error + Diagnostic list \<Rightarrow> server" where
  "settle_critic s r res =
     (if r < length (runs s) \<and> pCritic (runs s ! r) = Some Pending
      then set_run s r ((runs s ! r)\<lparr>pCritic := Some (settle res)\<rparr>) else s)"

text \<open>
  One step of the event loop. An exception that a notification handler throws is caught
  by the connection, which goes on with the next message: the state stays as the handler
  left it, and the configuration handler throws before it has written anything.
\<close>

fun step :: "(DocumentUri \<Rightarrow> error + string) \<Rightarrow> server \<Rightarrow> event \<Rightarrow> server" where
  "step fsPath s (DidOpen d) = validatePerlDocument (s\<lparr>documents := docs_set (documents s) d\<rparr>) d"
| "step fsPath s (DidSave d) = validatePerlDocument s d"
| "step fsPath s (DidClose d) = onDidClose (s\<lparr>documents := docs_delete (documents s) (uri d)\<rparr>) d"
| "step fsPath s (DidChangeConfiguration change) =
     (case onDidChangeConfiguration s change of Inl e \<Rightarrow> s | Inr s' \<Rightarrow> s')"
| "step fsPath s DidChangeWatchedFiles = s\<lparr>effects := effects s @ [ConsoleLog FileChangeEvent]\<rparr>"
| "step fsPath s (ConfigurationSettled i res) = settle_request s i res"
| "step fsPath s (WorkspaceFoldersSettled r res) = settle_folders s r res"
| "step fsPath s (PerlcompileSettled r res) = settle_compile s r res"
| "step fsPath s (PerlcriticSettled r res) = settle_critic s r res"
| "step fsPath s (Resume r) = resume fsPath s r"

definition exec :: "(DocumentUri \<Rightarrow> error + string) \<Rightarrow> server \<Rightarrow> event list \<Rightarrow> server" where
  "exec fsPath s es = foldl (step fsPath) s es"

text \<open>The publishes in a log of effects, in order.\<close>

fun publishes :: "effect list \<Rightarrow> (DocumentUri \<times> Diagnostic list) list" where
  "publishes [] = []"
| "publishes (SendDiagnostics u ds # es) = (u, ds) # publishes es"
| "publishes (_ # es) = publishes es"

subsection \<open>Notions used to state the properties\<close>

text \<open>
  An event is a lint completion when it resumes a run that waits for the lint check and
  whose lint check has delivered: the run then goes through lines 169 to 174.
\<close>

definition lint_completion :: "server \<Rightarrow> event \<Rightarrow> bool" where
  "lint_completion s e =
     (case e of
        Resume r \<Rightarrow>
          r < length (runs s) \<and>
          (case phase (runs s ! r) of
             AwaitCritic diagPerl \<Rightarrow>
               (case pCritic (runs s ! r) of Some (Fulfilled diagCritic) \<Rightarrow> True | _ \<Rightarrow> False)
           | _ \<Rightarrow> False)
      | _ \<Rightarrow> False)"

text \<open>The events that take a document's entry out of the settings cache.\<close>

fun removes :: "DocumentUri \<Rightarrow> event \<Rightarrow> bool" where
  "removes u (DidChangeConfiguration change) = True"
| "removes u (DidClose d) = (uri d = u)"
| "removes u _ = False"

text \<open>The calls of the two analyses that run \<open>r\<close> has made, as the log shows them.\<close>

fun is_perlcompile_of :: "nat \<Rightarrow> effect \<Rightarrow> bool" where
  "is_perlcompile_of r (Perlcompile r' u workspaceFolders settings) = (r' = r)"
| "is_perlcompile_of r _ = False"

fun is_perlcritic_of :: "nat \<Rightarrow> effect \<Rightarrow> bool" where
  "is_perlcritic_of r (Perlcritic r' u workspaceFolders settings) = (r' = r)"
| "is_perlcritic_of r _ = False"

definition started_both :: "server \<Rightarrow> nat \<Rightarrow> bool" where
  "started_both s r =
     (list_ex (is_perlcompile_of r) (effects s) \<and> list_ex (is_perlcritic_of r) (effects s))"

text \<open>The phases in which a run waits for the result of an analysis.\<close>

fun awaits_analysis :: "phase \<Rightarrow> bool" where
  "awaits_analysis AwaitCompile = True"
| "awaits_analysis (AwaitCritic diagPerl) = True"
| "awaits_analysis _ = False"

text \<open>
  A thenable is a fresh request, relative to a count \<open>n\<close> of earlier requests, when it is
  the promise of a configuration request numbered \<open>n\<close> or later that is still pending.
\<close>

fun fresh_request :: "nat \<Rightarrow> server \<Rightarrow> thenable \<Rightarrow> bool" where
  "fresh_request n s (Request i) = (n \<le> i \<and> i < length (requests s) \<and> requests s ! i = Pending)"
| "fresh_request n s (Resolved v) = False"

text \<open>A run that has only been called: it is suspended on its settings.\<close>

fun just_started :: "run \<Rightarrow> bool" where
  "just_started x =
     (case phase x of
        AwaitSettings result \<Rightarrow> pFolders x = None \<and> pCompile x = None \<and> pCritic x = None
      | _ \<Rightarrow> False)"

text \<open>
  The settings cache holds fresh requests only, and holds one for exactly the URIs of
  the documents \<open>ds\<close>.
\<close>

definition cache_fresh :: "nat \<Rightarrow> TextDocument list \<Rightarrow> server \<Rightarrow> bool" where
  "cache_fresh n ds s =
     (\<forall>u. case documentSettings s u of
             None \<Rightarrow> u \<notin> uri ` set ds
           | Some th \<Rightarrow> u \<in> uri ` set ds \<and> fresh_request n s th)"

text \<open>
  What a suspended run remembers agrees with where it came from: the file path it holds
  while it waits for the workspace folders is the one parsed from its document's URI,
  and the \<^verbatim>\<open>diagPerl\<close> it holds while it waits for the lint check is what the fast check
  delivered.
\<close>

definition run_ok :: "(DocumentUri \<Rightarrow> error + string) \<Rightarrow> run \<Rightarrow> bool" where
  "run_ok fsPath x =
     (case phase x of
        AwaitFolders settings filePath \<Rightarrow> fsPath (uri (textDocument x)) = Inr filePath
      | AwaitCritic diagPerl \<Rightarrow> pCompile x = Some (Fulfilled diagPerl)
      | _ \<Rightarrow> True)"

text \<open>
  The events that write the retention-store entry of the URI \<open>u\<close>: the lint completion
  of a run of a document with that URI, and the closing of such a document.
\<close>

fun writes_entry :: "server \<Rightarrow> DocumentUri \<Rightarrow> event \<Rightarrow> bool" where
  "writes_entry s u (DidClose d) = (uri d = u)"
| "writes_entry s u (Resume r) =
     (lint_completion s (Resume r) \<and> uri (textDocument (runs s ! r)) = u)"
| "writes_entry s u _ = False"

text \<open>A sequence of events, run from \<open>s\<close>, none of which writes the entry of \<open>u\<close>.\<close>

fun entry_untouched ::
  "(DocumentUri \<Rightarrow> error + string) \<Rightarrow> server \<Rightarrow> DocumentUri \<Rightarrow> event list \<Rightarrow> bool"
where
  "entry_untouched fsPath s u [] = True"
| "entry_untouched fsPath s u (e # es) =
     (\<not> writes_entry s u e \<and> entry_untouched fsPath (step fsPath s e) u es)"

subsection \<open>Example documents, diagnostics and event sequences\<close>

text \<open>
  A stand-in for the library's \<^verbatim>\<open>Uri.parse(...).fsPath\<close> in the examples: it throws on
  a percent sign that two hexadecimal digits do not follow, and otherwise gives what
  follows the scheme \<^verbatim>\<open>file://\<close> (it does not decode the escapes).
\<close>

definition hex_digit :: "char \<Rightarrow> bool" where
  "hex_digit c = (c \<in> set ''0123456789abcdefABCDEF'')"

fun hex_pair :: "string \<Rightarrow> bool" where
  "hex_pair (a # b # cs) = (hex_digit a \<and> hex_digit b)"
| "hex_pair _ = False"

fun escapes_ok :: "string \<Rightarrow> bool" where
  "escapes_ok [] = True"
| "escapes_ok (c # cs) = (if c = CHR ''%'' then hex_pair cs \<and> escapes_ok cs else escapes_ok cs)"

definition file_path :: "DocumentUri \<Rightarrow> error + string" where
  "file_path u = (if escapes_ok u then Inr (drop 7 u) else Inl URIError)"

definition a_pl :: TextDocument where
  "a_pl = \<lparr>uri = ''file:///a.pl'', content = ''print 1''\<rparr>"

definition b_pl :: TextDocument where
  "b_pl = \<lparr>uri = ''file:///b.pl'', content = ''my $x;''\<rparr>"

definition syntax_error :: Diagnostic where
  "syntax_error =
     \<lparr>startLine = 3, startCharacter = 0, endLine = 3, endCharacter = 80, severity = 1,
      message = ''syntax error'', source = ''perlnavigator''\<rparr>"

definition missing_strict :: Diagnostic where
  "missing_strict =
     \<lparr>startLine = 10, startCharacter = 0, endLine = 10, endCharacter = 80, severity = 2,
      message = ''style: missing strict'', source = ''perlcritic''\<rparr>"

definition unused_variable :: Diagnostic where
  "unused_variable =
     \<lparr>startLine = 1, startCharacter = 0, endLine = 1, endCharacter = 80, severity = 3,
      message = ''style: unused variable'', source = ''perlcritic''\<rparr>"

definition request_failed :: error where
  "request_failed = Failure ''workspace/configuration request failed''"

definition other_perl :: NavigatorSettings where
  "other_perl = defaultSettings\<lparr>perlPath := ''/opt/perl/bin/perl''\<rparr>"

text \<open>
  \<^verbatim>\<open>a.pl\<close> is opened: the fast check finds a syntax error, and then the lint check finds
  a missing \<^verbatim>\<open>use strict\<close>. The first sequence stops when the fast check has delivered.
\<close>

definition first_run_start :: "event list" where
  "first_run_start =
     [DidOpen a_pl, Resume 0, WorkspaceFoldersSettled 0 (Inr None), Resume 0,
      PerlcompileSettled 0 (Inr [syntax_error])]"

definition first_run :: "event list" where
  "first_run =
     first_run_start @ [Resume 0, PerlcriticSettled 0 (Inr [missing_strict]), Resume 0]"

text \<open>\<^verbatim>\<open>a.pl\<close> is saved again, and this time the fast check finds nothing.\<close>

definition second_run_start :: "event list" where
  "second_run_start =
     [DidSave a_pl, Resume 1, WorkspaceFoldersSettled 1 (Inr None), Resume 1,
      PerlcompileSettled 1 (Inr [])]"

text \<open>
  After the configuration request of \<^verbatim>\<open>a.pl\<close> has failed: its run is resumed, the
  document is saved and that run resumed, and another document is opened.
\<close>

definition after_rejection :: "event list" where
  "after_rejection =
     [Resume 0, DidSave a_pl, Resume 1, DidChangeWatchedFiles, DidOpen b_pl, Resume 2]"

text \<open>
  With the configuration capability: \<^verbatim>\<open>a.pl\<close> is opened, its settings arrive, the fast
  check finds a syntax error, stage 1 is published, and the lint check has found a
  missing \<^verbatim>\<open>use strict\<close>. Then, after stage 2, the document is saved and its second run
  gets the same two results.
\<close>

definition opened_and_checked :: "event list" where
  "opened_and_checked =
     [DidOpen a_pl, ConfigurationSettled 0 (Inr defaultSettings), Resume 0,
      WorkspaceFoldersSettled 0 (Inr None), Resume 0,
      PerlcompileSettled 0 (Inr [syntax_error]), Resume 0,
      PerlcriticSettled 0 (Inr [missing_strict])]"

definition saved_and_checked :: "event list" where
  "saved_and_checked =
     [DidSave a_pl, Resume 1, WorkspaceFoldersSettled 1 (Inr None), Resume 1,
      PerlcompileSettled 1 (Inr [syntax_error]), Resume 1,
      PerlcriticSettled 1 (Inr [missing_strict])]"

text \<open>
  Two runs of \<^verbatim>\<open>a.pl\<close> overlap: the first has started both analyses and waits for the
  fast check when the document is saved; the second run gets both results and
  publishes stage 2.
\<close>

definition overlapping_runs :: "event list" where
  "overlapping_runs =
     [DidOpen a_pl, Resume 0, WorkspaceFoldersSettled 0 (Inr None), Resume 0,
      DidSave a_pl, Resume 1, WorkspaceFoldersSettled 1 (Inr None), Resume 1,
      PerlcompileSettled 1 (Inr []), Resume 1,
      PerlcriticSettled 1 (Inr [missing_strict]), Resume 1]"

text \<open>
  After the first run of \<^verbatim>\<open>a.pl\<close>: \<^verbatim>\<open>b.pl\<close> is opened, goes through both stages and is
  closed; then \<^verbatim>\<open>a.pl\<close> is saved and its second run publishes stage 1.
\<close>

definition b_opened :: "event list" where
  "b_opened =
     [DidOpen b_pl, Resume 1, WorkspaceFoldersSettled 1 (Inr None), Resume 1,
      PerlcompileSettled 1 (Inr []), Resume 1, PerlcriticSettled 1 (Inr [unused_variable])]"

definition b_closed_a_saved :: "event list" where
  "b_closed_a_saved =
     [Resume 1, DidClose b_pl, DidSave a_pl, Resume 2, WorkspaceFoldersSettled 2 (Inr None),
      Resume 2, PerlcompileSettled 2 (Inr []), Resume 2]"




text \<open>
  Without the configuration capability: \<^verbatim>\<open>a.pl\<close> is open and the client has pushed
  settings with another interpreter.
\<close>

definition settings_pushed :: "event list" where
  "settings_pushed = [DidOpen a_pl, DidChangeConfiguration (Settings (Some other_perl))]"

section \<open>Properties\<close>

subsection \<open>Basic facts about the steps\<close>

lemma validate_fields:
  "hasConfigurationCapability (validatePerlDocument s d) = hasConfigurationCapability s"
  "globalSettings (validatePerlDocument s d) = globalSettings s"
  "documentDiags (validatePerlDocument s d) = documentDiags s"
  "documents (validatePerlDocument s d) = documents s"
  by (simp_all add: validatePerlDocument_def getDocumentSettings_def Let_def split: option.splits)

lemma validate_runs:
  "runs (validatePerlDocument s d) =
     runs s @ [\<lparr>textDocument = d, phase = AwaitSettings (fst (getDocumentSettings s (uri d))),
                pFolders = None, pCompile = None, pCritic = None\<rparr>]"
  by (simp add: validatePerlDocument_def getDocumentSettings_def Let_def split: option.splits)

lemma revalidate_fields:
  "hasConfigurationCapability (foldl validatePerlDocument s ds) = hasConfigurationCapability s"
  "globalSettings (foldl validatePerlDocument s ds) = globalSettings s"
  "documentDiags (foldl validatePerlDocument s ds) = documentDiags s"
  "documents (foldl validatePerlDocument s ds) = documents s"
  by (induction ds arbitrary: s) (simp_all add: validate_fields)

lemma publishes_append: "publishes (xs @ ys) = publishes xs @ publishes ys"
  by (induction xs rule: publishes.induct) simp_all

lemma revalidate_runs:
  "\<exists>new. runs (foldl validatePerlDocument s ds) = runs s @ new \<and> map textDocument new = ds"
proof (induction ds arbitrary: s)
  case Nil
  show ?case by simp
next
  case (Cons d ds)
  define x where "x = \<lparr>textDocument = d, phase = AwaitSettings (fst (getDocumentSettings s (uri d))),
                pFolders = None, pCompile = None, pCritic = None\<rparr>"
  have x: "runs (validatePerlDocument s d) = runs s @ [x]" "textDocument x = d"
    by (simp_all add: validate_runs x_def)
  from Cons.IH [of "validatePerlDocument s d"] obtain new where
    new: "runs (foldl validatePerlDocument (validatePerlDocument s d) ds) =
            runs (validatePerlDocument s d) @ new" "map textDocument new = ds"
    by (elim exE conjE)
  have "runs (foldl validatePerlDocument s (d # ds)) = runs s @ (x # new)"
    by (simp add: new(1) x(1))
  moreover have "map textDocument (x # new) = d # ds"
    by (simp add: new(2) x(2))
  ultimately show ?case by (intro exI [of _ "x # new"] conjI)
qed

lemma set_run_fields:
  "hasConfigurationCapability (set_run s r x) = hasConfigurationCapability s"
  "globalSettings (set_run s r x) = globalSettings s"
  "documentSettings (set_run s r x) = documentSettings s"
  "documentDiags (set_run s r x) = documentDiags s"
  "documents (set_run s r x) = documents s"
  "requests (set_run s r x) = requests s"
  "effects (set_run s r x) = effects s"
  "runs (set_run s r x) = (runs s)[r := x]"
  by (simp_all add: set_run_def)

lemma segment_diags:
  "documentDiags (after_settings fsPath s r x st) = documentDiags s"
  "documentDiags (dispatch s r x st fp fs) = documentDiags s"
  "documentDiags (stage1 s r x dp) = documentDiags s"
  "documentDiags (throw s r x e) = documentDiags s"
  "documentDiags (stage2 s r x dp dc) = (documentDiags s)(uri (textDocument x) \<mapsto> dc)"
  by (simp_all add: after_settings_def dispatch_def stage1_def stage2_def throw_def
      set_run_fields Let_def split: sum.splits)

lemma resume_run_diags:
  "\<not> (\<exists>dp dc. phase x = AwaitCritic dp \<and> pCritic x = Some (Fulfilled dc)) \<Longrightarrow>
   documentDiags (resume_run fsPath s r x) = documentDiags s"
  by (cases "phase x"; cases "pFolders x"; cases "pCompile x"; cases "pCritic x")
     (auto simp: resume_run_def segment_diags split: promise.splits)

lemma segment_runs:
  "runs (after_settings fsPath s r x st) =
     (runs s)[r := (case fsPath (uri (textDocument x)) of
                      Inl e \<Rightarrow> x\<lparr>phase := Thrown e\<rparr>
                    | Inr fp \<Rightarrow> x\<lparr>phase := AwaitFolders st fp, pFolders := Some Pending\<rparr>)]"
  "runs (dispatch s r x st fp fs) =
     (runs s)[r := x\<lparr>phase := AwaitCompile, pCompile := Some Pending, pCritic := Some Pending\<rparr>]"
  "runs (stage1 s r x dp) = (runs s)[r := x\<lparr>phase := AwaitCritic dp\<rparr>]"
  "runs (stage2 s r x dp dc) = (runs s)[r := x\<lparr>phase := Returned\<rparr>]"
  "runs (throw s r x e) = (runs s)[r := x\<lparr>phase := Thrown e\<rparr>]"
  by (simp_all add: after_settings_def dispatch_def stage1_def stage2_def throw_def
      set_run_fields Let_def split: sum.splits)

lemma resume_run_runs: "\<exists>y. runs (resume_run fsPath s r x) = (runs s)[r := y]"
proof -
  have same: "runs s = (runs s)[r := runs s ! r]" by simp
  show ?thesis
    apply (cases "phase x"; cases "pFolders x"; cases "pCompile x"; cases "pCritic x")
    apply (simp_all add: resume_run_def segment_runs split: promise.splits)
    apply (insert same)
    apply (auto simp del: list_update_id)
    done
qed

lemma resume_other_run:
  assumes "r < length (runs s)" and "r' \<noteq> r"
  shows "r < length (runs (resume fsPath s r')) \<and> runs (resume fsPath s r') ! r = runs s ! r"
proof -
  obtain y where "runs (resume_run fsPath s r' (runs s ! r')) = (runs s)[r' := y]"
    using resume_run_runs [of fsPath s r' "runs s ! r'"] by (elim exE)
  with assms show ?thesis by (simp add: resume_def)
qed

lemma apply_change_frame:
  assumes "applyConfigurationChange s c = Inr s1"
  shows "runs s1 = runs s" and "effects s1 = effects s" and "requests s1 = requests s"
    and "documents s1 = documents s" and "documentDiags s1 = documentDiags s"
    and "hasConfigurationCapability s1 = hasConfigurationCapability s"
  using assms
  by (auto simp: applyConfigurationChange_def split: if_splits ConfigurationChange.splits)

lemma step_change:
  "step fsPath s (DidChangeConfiguration c) = s \<or>
   (\<exists>s1. applyConfigurationChange s c = Inr s1 \<and>
         step fsPath s (DidChangeConfiguration c) = foldl validatePerlDocument s1 (documents s) \<and>
         runs s1 = runs s \<and> effects s1 = effects s \<and> requests s1 = requests s \<and>
         documentDiags s1 = documentDiags s \<and>
         hasConfigurationCapability s1 = hasConfigurationCapability s)"
proof (cases "applyConfigurationChange s c")
  case (Inl e)
  then show ?thesis by (simp add: onDidChangeConfiguration_def)
next
  case (Inr s1)
  note f = apply_change_frame [OF Inr]
  have "step fsPath s (DidChangeConfiguration c) = foldl validatePerlDocument s1 (documents s)"
    by (simp add: onDidChangeConfiguration_def Inr f)
  with Inr f show ?thesis by (intro disjI2 exI [of _ s1] conjI)
qed

lemma step_run_frame:
  assumes "r < length (runs s)" and "e \<noteq> Resume r"
  shows "r < length (runs (step fsPath s e)) \<and>
         phase (runs (step fsPath s e) ! r) = phase (runs s ! r) \<and>
         textDocument (runs (step fsPath s e) ! r) = textDocument (runs s ! r)"
proof (cases e)
  case (DidOpen d)
  with assms(1) show ?thesis by (simp add: validate_runs nth_append)
next
  case (DidSave d)
  with assms(1) show ?thesis by (simp add: validate_runs nth_append)
next
  case (DidClose d)
  with assms(1) show ?thesis by (simp add: onDidClose_def)
next
  case (DidChangeConfiguration c)
  from step_change [of fsPath s c] show ?thesis
  proof (elim disjE exE conjE)
    assume "step fsPath s (DidChangeConfiguration c) = s"
    with assms(1) DidChangeConfiguration show ?thesis by simp
  next
    fix s1
    assume s1: "step fsPath s (DidChangeConfiguration c) =
        foldl validatePerlDocument s1 (documents s)" "runs s1 = runs s"
    obtain new where "runs (foldl validatePerlDocument s1 (documents s)) = runs s1 @ new"
      "map textDocument new = documents s"
      using revalidate_runs [of s1 "documents s"] by (elim exE conjE)
    with s1 have "runs (step fsPath s (DidChangeConfiguration c)) = runs s @ new" by simp
    with assms(1) show ?thesis
      unfolding DidChangeConfiguration by (simp add: nth_append)
  qed
next
  case DidChangeWatchedFiles
  with assms(1) show ?thesis by simp
next
  case (ConfigurationSettled i res)
  with assms(1) show ?thesis by (simp add: settle_request_def)
next
  case (WorkspaceFoldersSettled r' res)
  with assms(1) show ?thesis
    by (cases "r' = r") (simp_all add: settle_folders_def set_run_fields)
next
  case (PerlcompileSettled r' res)
  with assms(1) show ?thesis
    by (cases "r' = r") (simp_all add: settle_compile_def set_run_fields)
next
  case (PerlcriticSettled r' res)
  with assms(1) show ?thesis
    by (cases "r' = r") (simp_all add: settle_critic_def set_run_fields)
next
  case (Resume r')
  with assms(2) have "r' \<noteq> r" by simp
  with assms(1) Resume show ?thesis by (simp add: resume_other_run)
qed

lemma exec_Nil: "exec fsPath s [] = s"
  by (simp add: exec_def)

lemma exec_Cons: "exec fsPath s (e # es) = exec fsPath (step fsPath s e) es"
  by (simp add: exec_def)

lemma exec_append: "exec fsPath s (es @ es') = exec fsPath (exec fsPath s es) es'"
  by (simp add: exec_def)

lemma exec_run_frame:
  "r < length (runs s) \<Longrightarrow> Resume r \<notin> set es \<Longrightarrow>
   r < length (runs (exec fsPath s es)) \<and>
   phase (runs (exec fsPath s es) ! r) = phase (runs s ! r) \<and>
   textDocument (runs (exec fsPath s es) ! r) = textDocument (runs s ! r)"
proof (induction es arbitrary: s)
  case Nil
  then show ?case by (simp add: exec_Nil)
next
  case (Cons e es)
  from Cons.prems have e: "e \<noteq> Resume r" and es: "Resume r \<notin> set es" by auto
  note one = step_run_frame [OF Cons.prems(1) e]
  from one have "r < length (runs (step fsPath s e))" by simp
  from Cons.IH [OF this es] one show ?case by (simp add: exec_Cons)
qed

lemmas run_defs =
  file_path_def hex_digit_def exec_def initial_def validatePerlDocument_def getDocumentSettings_def resume_def
  resume_run_def after_settings_def dispatch_def stage1_def stage2_def throw_def set_run_def
  settle_request_def settle_folders_def settle_compile_def settle_critic_def onDidClose_def
  onDidChangeConfiguration_def applyConfigurationChange_def docs_delete_def

lemmas example_defs = a_pl_def b_pl_def first_run_start_def first_run_def

lemma segment_effects:
  "effects (after_settings fsPath s r x st) =
     effects s @ (case fsPath (uri (textDocument x)) of
                    Inl e \<Rightarrow> []
                  | Inr fp \<Rightarrow> [GetWorkspaceFolders r])"
  "effects (dispatch s r x st fp fs) = effects s @ [Perlcompile r fp fs st, Perlcritic r fp fs st]"
  "effects (stage1 s r x dp) =
     effects s @ [ConsoleLog CompilationTime,
       SendDiagnostics (uri (textDocument x))
         (case documentDiags s (uri (textDocument x)) of None \<Rightarrow> dp | Some old \<Rightarrow> dp @ old)]"
  "effects (stage2 s r x dp dc) =
     effects s @ [ConsoleLog PerlCriticTime, SendDiagnostics (uri (textDocument x)) (dp @ dc)]"
  "effects (throw s r x e) = effects s"
  by (simp_all add: after_settings_def dispatch_def stage1_def stage2_def throw_def
      set_run_fields Let_def split: sum.splits)

subsection \<open>Stage 1\<close>

text \<open>
  Claim C1. When a run that waits for the fast check is resumed on the fast check's
  diagnostics, it publishes exactly one list for its document: the fast-check
  diagnostics followed by the retained lint snapshot of that document if the store has
  one, and the fast-check diagnostics alone if it has none. In particular a retained
  snapshot \<open>S\<close> is published as it is when the fast check returns no diagnostics.
\<close>

theorem stage1_publish:
  assumes "r < length (runs s)"
    and "phase (runs s ! r) = AwaitCompile"
    and "pCompile (runs s ! r) = Some (Fulfilled diagPerl)"
  shows "publishes (effects (step fsPath s (Resume r))) =
           publishes (effects s) @
             [(uri (textDocument (runs s ! r)),
               diagPerl @ (case documentDiags s (uri (textDocument (runs s ! r))) of
                             None \<Rightarrow> [] | Some S \<Rightarrow> S))] \<and>
         (documentDiags s (uri (textDocument (runs s ! r))) = None \<longrightarrow>
            last (publishes (effects (step fsPath s (Resume r)))) =
              (uri (textDocument (runs s ! r)), diagPerl)) \<and>
         (\<forall>S. documentDiags s (uri (textDocument (runs s ! r))) = Some S \<and> diagPerl = [] \<longrightarrow>
            last (publishes (effects (step fsPath s (Resume r)))) =
              (uri (textDocument (runs s ! r)), S))"
proof -
  have "step fsPath s (Resume r) = stage1 s r (runs s ! r) diagPerl"
    using assms by (simp add: resume_def resume_run_def)
  then show ?thesis
    by (simp add: segment_effects publishes_append split: option.splits)
qed

theorem stage1_publish_witness:
  "1 < length (runs (exec file_path (initial False) (first_run @ second_run_start))) \<and>
   phase (runs (exec file_path (initial False) (first_run @ second_run_start)) ! 1) = AwaitCompile \<and>
   pCompile (runs (exec file_path (initial False) (first_run @ second_run_start)) ! 1) = Some (Fulfilled []) \<and>
   documentDiags (exec file_path (initial False) (first_run @ second_run_start)) ''file:///a.pl'' = Some [missing_strict] \<and>
   last (publishes (effects (step file_path (exec file_path (initial False) (first_run @ second_run_start)) (Resume 1))))
     = (''file:///a.pl'', [missing_strict]) \<and>
   documentDiags (exec file_path (initial False) first_run_start) ''file:///a.pl'' = None \<and>
   last (publishes (effects (step file_path (exec file_path (initial False) first_run_start) (Resume 0))))
     = (''file:///a.pl'', [syntax_error])"
proof -
  have a: "1 < length (runs (exec file_path (initial False) (first_run @ second_run_start)))"
    by (simp add: run_defs example_defs second_run_start_def)
  have b: "phase (runs (exec file_path (initial False) (first_run @ second_run_start)) ! 1) = AwaitCompile"
    by (simp add: run_defs example_defs second_run_start_def)
  have c: "pCompile (runs (exec file_path (initial False) (first_run @ second_run_start)) ! 1) = Some (Fulfilled [])"
    by (simp add: run_defs example_defs second_run_start_def)
  have d: "documentDiags (exec file_path (initial False) (first_run @ second_run_start)) ''file:///a.pl'' = Some [missing_strict]"
    by (simp add: run_defs example_defs second_run_start_def)
  have e: "uri (textDocument (runs (exec file_path (initial False) (first_run @ second_run_start)) ! 1)) = ''file:///a.pl''"
    by (simp add: run_defs example_defs second_run_start_def)
  have f: "0 < length (runs (exec file_path (initial False) first_run_start))"
    "phase (runs (exec file_path (initial False) first_run_start) ! 0) = AwaitCompile"
    "pCompile (runs (exec file_path (initial False) first_run_start) ! 0) = Some (Fulfilled [syntax_error])"
    by (simp_all add: run_defs example_defs)
  have g: "documentDiags (exec file_path (initial False) first_run_start) ''file:///a.pl'' = None"
    "uri (textDocument (runs (exec file_path (initial False) first_run_start) ! 0)) = ''file:///a.pl''"
    by (simp_all add: run_defs example_defs)
  show ?thesis
    using stage1_publish [OF a b c] stage1_publish [OF f] a b c d e g by simp
qed

subsection \<open>Closing a document\<close>

text \<open>
  Claim C3. After the close handler for a document has run, the settings cache and the
  retention store have no entry for the document's URI, and the handler has published
  the empty list of diagnostics for that URI.
\<close>

theorem close_clears_and_publishes_empty:
  "documentSettings (step fsPath s (DidClose d)) (uri d) = None \<and>
   documentDiags (step fsPath s (DidClose d)) (uri d) = None \<and>
   effects (step fsPath s (DidClose d)) = effects s @ [SendDiagnostics (uri d) []] \<and>
   publishes (effects (step fsPath s (DidClose d))) = publishes (effects s) @ [(uri d, [])]"
  by (simp add: onDidClose_def publishes_append)

subsection \<open>Stage 2\<close>

text \<open>
  Claim C2. Take a run that publishes stage 1 with the fast-check diagnostics
  \<open>diagPerl\<close>, let anything else happen, and let the run be resumed once its lint check
  has completed with \<open>diagCritic\<close>. That resumption replaces the retention-store entry of
  the run's document by \<open>diagCritic\<close> and then publishes \<open>diagPerl\<close> followed by
  \<open>diagCritic\<close>; the fast-check part of this payload is that of the run's stage 1.
\<close>

theorem stage2_publish:
  assumes "r < length (runs s)"
    and "phase (runs s ! r) = AwaitCompile"
    and "pCompile (runs s ! r) = Some (Fulfilled diagPerl)"
    and "Resume r \<notin> set es"
    and "pCritic (runs (exec fsPath (step fsPath s (Resume r)) es) ! r) = Some (Fulfilled diagCritic)"
  shows "let u = uri (textDocument (runs s ! r));
             s1 = step fsPath s (Resume r);
             s2 = exec fsPath s1 es;
             s3 = step fsPath s2 (Resume r)
         in documentDiags s3 = (documentDiags s2)(u \<mapsto> diagCritic) \<and>
            publishes (effects s3) = publishes (effects s2) @ [(u, diagPerl @ diagCritic)] \<and>
            fst (last (publishes (effects s1))) = u \<and>
            take (length diagPerl) (snd (last (publishes (effects s1)))) = diagPerl \<and>
            take (length diagPerl) (snd (last (publishes (effects s3)))) = diagPerl"
proof -
  define x where "x = runs s ! r"
  define s1 where "s1 = step fsPath s (Resume r)"
  define s2 where "s2 = exec fsPath s1 es"
  have s1: "s1 = stage1 s r x diagPerl"
    using assms(1-3) by (simp add: s1_def x_def resume_def resume_run_def)
  have r1: "r < length (runs s1)" "phase (runs s1 ! r) = AwaitCritic diagPerl"
    "textDocument (runs s1 ! r) = textDocument x"
    using assms(1) by (simp_all add: s1 segment_runs x_def)
  from exec_run_frame [OF r1(1) assms(4)]
  have r2: "r < length (runs s2)" "phase (runs s2 ! r) = AwaitCritic diagPerl"
    "textDocument (runs s2 ! r) = textDocument x"
    by (simp_all add: s2_def r1)
  have crit: "pCritic (runs s2 ! r) = Some (Fulfilled diagCritic)"
    using assms(5) by (simp add: s2_def s1_def)
  have s3: "resume fsPath s2 r = stage2 s2 r (runs s2 ! r) diagPerl diagCritic"
    using r2 crit by (simp add: resume_def resume_run_def)
  have p1: "last (publishes (effects s1)) =
      (uri (textDocument x),
       diagPerl @ (case documentDiags s (uri (textDocument x)) of None \<Rightarrow> [] | Some S \<Rightarrow> S))"
    by (simp add: s1 segment_effects publishes_append split: option.splits)
  have p3: "publishes (effects (resume fsPath s2 r)) =
      publishes (effects s2) @ [(uri (textDocument x), diagPerl @ diagCritic)]"
    by (simp add: s3 segment_effects publishes_append r2)
  have d3: "documentDiags (resume fsPath s2 r) =
      (documentDiags s2)(uri (textDocument x) \<mapsto> diagCritic)"
    by (simp add: s3 segment_diags r2)
  show ?thesis
    unfolding Let_def s1_def [symmetric] s2_def [symmetric] x_def [symmetric]
    by (simp add: p1 p3 d3)
qed

theorem stage2_publish_witness:
  "0 < length (runs (exec file_path (initial False) first_run_start)) \<and>
   phase (runs (exec file_path (initial False) first_run_start) ! 0) = AwaitCompile \<and>
   pCompile (runs (exec file_path (initial False) first_run_start) ! 0) = Some (Fulfilled [syntax_error]) \<and>
   Resume 0 \<notin> set [PerlcriticSettled 0 (Inr [missing_strict])] \<and>
   documentDiags (exec file_path (initial False) first_run) ''file:///a.pl'' = Some [missing_strict] \<and>
   publishes (effects (exec file_path (initial False) first_run)) =
     [(''file:///a.pl'', [syntax_error]), (''file:///a.pl'', [syntax_error, missing_strict])]"
proof -
  let ?s = "exec file_path (initial False) first_run_start"
  let ?es = "[PerlcriticSettled 0 (Inr [missing_strict])]"
  have a: "0 < length (runs ?s)"
    by (simp add: run_defs example_defs)
  have b: "phase (runs ?s ! 0) = AwaitCompile"
    by (simp add: run_defs example_defs)
  have c: "pCompile (runs ?s ! 0) = Some (Fulfilled [syntax_error])"
    by (simp add: run_defs example_defs)
  have d: "Resume 0 \<notin> set ?es" by simp
  have e: "pCritic (runs (exec file_path (step file_path ?s (Resume 0)) ?es) ! 0) = Some (Fulfilled [missing_strict])"
    by (simp add: run_defs example_defs)
  have f: "exec file_path (initial False) first_run = step file_path (exec file_path (step file_path ?s (Resume 0)) ?es) (Resume 0)"
    by (simp add: first_run_def exec_def)
  have g: "publishes (effects (exec file_path (step file_path ?s (Resume 0)) ?es)) = [(''file:///a.pl'', [syntax_error])]"
    by (simp add: run_defs example_defs)
  have h: "uri (textDocument (runs ?s ! 0)) = ''file:///a.pl''"
    by (simp add: run_defs example_defs)
  show ?thesis
    using stage2_publish [OF a b c d e] a b c d
    unfolding Let_def f g h by simp
qed

lemma segment_frame:
  "hasConfigurationCapability (after_settings fsPath s r x st) = hasConfigurationCapability s"
  "hasConfigurationCapability (dispatch s r x st fp fs) = hasConfigurationCapability s"
  "hasConfigurationCapability (stage1 s r x dp) = hasConfigurationCapability s"
  "hasConfigurationCapability (stage2 s r x dp dc) = hasConfigurationCapability s"
  "hasConfigurationCapability (throw s r x e) = hasConfigurationCapability s"
  "globalSettings (after_settings fsPath s r x st) = globalSettings s"
  "globalSettings (dispatch s r x st fp fs) = globalSettings s"
  "globalSettings (stage1 s r x dp) = globalSettings s"
  "globalSettings (stage2 s r x dp dc) = globalSettings s"
  "globalSettings (throw s r x e) = globalSettings s"
  "documentSettings (after_settings fsPath s r x st) = documentSettings s"
  "documentSettings (dispatch s r x st fp fs) = documentSettings s"
  "documentSettings (stage1 s r x dp) = documentSettings s"
  "documentSettings (stage2 s r x dp dc) = documentSettings s"
  "documentSettings (throw s r x e) = documentSettings s"
  "requests (after_settings fsPath s r x st) = requests s"
  "requests (dispatch s r x st fp fs) = requests s"
  "requests (stage1 s r x dp) = requests s"
  "requests (stage2 s r x dp dc) = requests s"
  "requests (throw s r x e) = requests s"
  "documents (after_settings fsPath s r x st) = documents s"
  "documents (dispatch s r x st fp fs) = documents s"
  "documents (stage1 s r x dp) = documents s"
  "documents (stage2 s r x dp dc) = documents s"
  "documents (throw s r x e) = documents s"
  by (simp_all add: after_settings_def dispatch_def stage1_def stage2_def throw_def
      set_run_fields Let_def split: sum.splits)

subsection \<open>A failed configuration request\<close>

lemma validate_cache:
  "documentSettings (validatePerlDocument s d) = documentSettings (snd (getDocumentSettings s (uri d)))"
  "requests (validatePerlDocument s d) = requests (snd (getDocumentSettings s (uri d)))"
  "effects (validatePerlDocument s d) = effects (snd (getDocumentSettings s (uri d)))"
  by (simp_all add: validatePerlDocument_def split: prod.splits)

lemma resume_frame:
  "hasConfigurationCapability (resume fsPath s r) = hasConfigurationCapability s"
  "globalSettings (resume fsPath s r) = globalSettings s"
  "documentSettings (resume fsPath s r) = documentSettings s"
  "requests (resume fsPath s r) = requests s"
  "documents (resume fsPath s r) = documents s"
  by (simp_all add: resume_def resume_run_def segment_frame
      split: phase.splits promise.splits option.splits)

lemma step_capability: "hasConfigurationCapability (step fsPath s ev) = hasConfigurationCapability s"
proof (cases ev)
  case (DidChangeConfiguration c)
  from step_change [of fsPath s c] show ?thesis
    unfolding DidChangeConfiguration by (auto simp: revalidate_fields)
qed (simp_all add: validate_fields onDidClose_def settle_request_def settle_folders_def
      settle_compile_def settle_critic_def set_run_fields resume_frame)

lemma getDocumentSettings_cache_frame:
  assumes "documentSettings s u = Some th" and "i < length (requests s)"
  shows "documentSettings (snd (getDocumentSettings s v)) u = Some th"
    and "i < length (requests (snd (getDocumentSettings s v)))"
    and "requests (snd (getDocumentSettings s v)) ! i = requests s ! i"
  using assms
  by (auto simp: getDocumentSettings_def Let_def nth_append split: option.splits)

lemma step_cache_frame:
  assumes c: "documentSettings s u = Some th"
    and i: "i < length (requests s)"
    and e: "requests s ! i = Rejected e"
    and ev: "\<not> removes u ev"
  shows "documentSettings (step fsPath s ev) u = Some th \<and>
         i < length (requests (step fsPath s ev)) \<and>
         requests (step fsPath s ev) ! i = Rejected e"
proof (cases ev)
  case (DidOpen d)
  have "documentSettings (s\<lparr>documents := docs_set (documents s) d\<rparr>) u = Some th"
    "i < length (requests (s\<lparr>documents := docs_set (documents s) d\<rparr>))"
    using c i by simp_all
  from getDocumentSettings_cache_frame [OF this, of "uri d"] DidOpen e
  show ?thesis by (simp add: validate_cache)
next
  case (DidSave d)
  from getDocumentSettings_cache_frame [OF c i, of "uri d"] DidSave e
  show ?thesis by (simp add: validate_cache)
next
  case (DidClose d)
  with ev c i e show ?thesis by (simp add: onDidClose_def)
next
  case (DidChangeConfiguration change)
  with ev show ?thesis by simp
next
  case DidChangeWatchedFiles
  with c i e show ?thesis by simp
next
  case (ConfigurationSettled j res)
  with c i e show ?thesis
    by (cases "j = i") (simp_all add: settle_request_def)
next
  case (WorkspaceFoldersSettled r res)
  with c i e show ?thesis by (simp add: settle_folders_def set_run_fields)
next
  case (PerlcompileSettled r res)
  with c i e show ?thesis by (simp add: settle_compile_def set_run_fields)
next
  case (PerlcriticSettled r res)
  with c i e show ?thesis by (simp add: settle_critic_def set_run_fields)
next
  case (Resume r)
  with c i e show ?thesis by (simp add: resume_frame)
qed

lemma exec_cache_frame:
  "documentSettings s u = Some th \<Longrightarrow> i < length (requests s) \<Longrightarrow>
   requests s ! i = Rejected e \<Longrightarrow> \<forall>ev \<in> set es. \<not> removes u ev \<Longrightarrow>
   documentSettings (exec fsPath s es) u = Some th \<and>
   i < length (requests (exec fsPath s es)) \<and>
   requests (exec fsPath s es) ! i = Rejected e"
proof (induction es arbitrary: s)
  case Nil
  then show ?case by (simp add: exec_Nil)
next
  case (Cons ev es)
  from Cons.prems(4) have ev: "\<not> removes u ev" and es: "\<forall>ev \<in> set es. \<not> removes u ev"
    by simp_all
  from step_cache_frame [OF Cons.prems(1-3) ev]
  have "documentSettings (step fsPath s ev) u = Some th" "i < length (requests (step fsPath s ev))"
    "requests (step fsPath s ev) ! i = Rejected e"
    by simp_all
  from Cons.IH [OF this es] show ?case by (simp add: exec_Cons)
qed

lemma exec_capability: "hasConfigurationCapability (exec fsPath s es) = hasConfigurationCapability s"
  by (induction es arbitrary: s) (simp_all add: exec_Nil exec_Cons step_capability)



subsection \<open>A rejected promise in the settings cache\<close>

text \<open>
  Claim C9. With the configuration capability, let the cached configuration request of
  a document fail with \<open>e\<close>. After any events that are neither a configuration change nor
  the closing of that document, \<^verbatim>\<open>getDocumentSettings\<close> still returns that very
  request, rejected with \<open>e\<close>, and leaves the state as it is, so no new request goes out;
  a run started for the document then throws \<open>e\<close>. Closing the document, or a
  configuration change, takes the entry out of the cache.
\<close>

theorem rejected_settings_stay_cached:
  assumes "hasConfigurationCapability s"
    and "documentSettings s u = Some (Request i)"
    and "i < length (requests s)"
    and "requests s ! i = Pending"
    and "\<forall>ev \<in> set es. \<not> removes u ev"
  shows "let s' = exec fsPath (step fsPath s (ConfigurationSettled i (Inl e))) es
         in getDocumentSettings s' u = (Request i, s') \<and>
            thenable_state s' (Request i) = Rejected e \<and>
            (\<forall>d. uri d = u \<longrightarrow>
               requests (validatePerlDocument s' d) = requests s' \<and>
               effects (validatePerlDocument s' d) = effects s' \<and>
               phase (runs (step fsPath (validatePerlDocument s' d) (Resume (length (runs s')))) !
                        length (runs s')) = Thrown e) \<and>
            (\<forall>d. uri d = u \<longrightarrow> documentSettings (step fsPath s' (DidClose d)) u = None) \<and>
            (\<forall>change. case applyConfigurationChange s' change of
                        Inl e \<Rightarrow> False
                      | Inr cleared \<Rightarrow> documentSettings cleared u = None)"
proof -
  define t where "t = step fsPath s (ConfigurationSettled i (Inl e))"
  define s' where "s' = exec fsPath t es"
  have t: "documentSettings t u = Some (Request i)" "i < length (requests t)"
    "requests t ! i = Rejected e"
    using assms(2-4) by (simp_all add: t_def settle_request_def)
  from exec_cache_frame [OF t assms(5)]
  have c: "documentSettings s' u = Some (Request i)" "i < length (requests s')"
    "requests s' ! i = Rejected e"
    by (simp_all add: s'_def)
  have cap: "hasConfigurationCapability s'"
    using assms(1) unfolding s'_def t_def by (simp only: exec_capability step_capability)
  have g: "getDocumentSettings s' u = (Request i, s')"
    using cap c(1) by (simp add: getDocumentSettings_def)
  have st: "thenable_state s' (Request i) = Rejected e"
    using c(2,3) by simp
  have run: "requests (validatePerlDocument s' d) = requests s' \<and>
             effects (validatePerlDocument s' d) = effects s' \<and>
             phase (runs (step fsPath (validatePerlDocument s' d) (Resume (length (runs s')))) !
                      length (runs s')) = Thrown e" if "uri d = u" for d
  proof -
    define x where "x = \<lparr>textDocument = d, phase = AwaitSettings (Request i), pFolders = None,
                          pCompile = None, pCritic = None\<rparr>"
    define v where "v = validatePerlDocument s' d"
    have v: "v = s'\<lparr>runs := runs s' @ [x]\<rparr>"
      using that by (simp add: v_def validatePerlDocument_def g x_def)
    have stv: "thenable_state v (Request i) = Rejected e"
      using c(2,3) by (simp add: v)
    have "resume fsPath v (length (runs s')) = throw v (length (runs s')) x e"
      using stv by (simp add: resume_def resume_run_def v x_def del: thenable_state.simps)
    then have "phase (runs (step fsPath v (Resume (length (runs s')))) ! length (runs s')) = Thrown e"
      by (simp add: segment_runs v)
    then show ?thesis
      unfolding v_def [symmetric] by (simp add: v)
  qed
  have close: "documentSettings (step fsPath s' (DidClose d)) u = None" if "uri d = u" for d
    using that by (simp add: onDidClose_def)
  have change: "case applyConfigurationChange s' change of
                  Inl e \<Rightarrow> False
                | Inr cleared \<Rightarrow> documentSettings cleared u = None" for change
    using cap by (simp add: applyConfigurationChange_def)
  show ?thesis
    unfolding Let_def t_def [symmetric] s'_def [symmetric]
    using g st run close change by simp
qed

theorem rejected_settings_stay_cached_witness:
  "hasConfigurationCapability (exec file_path (initial True) [DidOpen a_pl]) \<and>
   documentSettings (exec file_path (initial True) [DidOpen a_pl]) ''file:///a.pl'' = Some (Request 0) \<and>
   requests (exec file_path (initial True) [DidOpen a_pl]) = [Pending] \<and>
   \<not> list_ex (removes ''file:///a.pl'') after_rejection \<and>
   fst (getDocumentSettings
     (exec file_path (initial True)
        (DidOpen a_pl # ConfigurationSettled 0 (Inl request_failed) # after_rejection)) ''file:///a.pl'') =
     Request 0 \<and>
   requests
     (exec file_path (initial True)
        (DidOpen a_pl # ConfigurationSettled 0 (Inl request_failed) # after_rejection)) =
     [Rejected request_failed, Pending] \<and>
   map phase (runs
     (exec file_path (initial True)
        (DidOpen a_pl # ConfigurationSettled 0 (Inl request_failed) # after_rejection))) =
     [Thrown request_failed, Thrown request_failed, AwaitSettings (Request 1)] \<and>
   uri a_pl = ''file:///a.pl'' \<and>
   documentSettings
     (step file_path (exec file_path (initial True)
        (DidOpen a_pl # ConfigurationSettled 0 (Inl request_failed) # after_rejection))
        (DidClose a_pl)) ''file:///a.pl'' = None"
proof -
  let ?s = "exec file_path (initial True) [DidOpen a_pl]"
  have a: "hasConfigurationCapability ?s"
    by (simp add: run_defs Let_def)
  have b: "documentSettings ?s ''file:///a.pl'' = Some (Request 0)"
    by (simp add: run_defs Let_def a_pl_def)
  have c: "requests ?s = [Pending]"
    by (simp add: run_defs Let_def)
  have c': "0 < length (requests ?s)" "requests ?s ! 0 = Pending"
    by (simp_all add: c)
  have d: "\<forall>ev \<in> set after_rejection. \<not> removes ''file:///a.pl'' ev"
    by (simp add: after_rejection_def)
  have d': "\<not> list_ex (removes ''file:///a.pl'') after_rejection"
    by (simp add: after_rejection_def)
  have e: "exec file_path (step file_path ?s (ConfigurationSettled 0 (Inl request_failed))) after_rejection =
      exec file_path (initial True)
        (DidOpen a_pl # ConfigurationSettled 0 (Inl request_failed) # after_rejection)"
    by (simp add: exec_def)
  have f: "requests (exec file_path (initial True)
        (DidOpen a_pl # ConfigurationSettled 0 (Inl request_failed) # after_rejection)) =
     [Rejected request_failed, Pending]"
    by (simp add: run_defs Let_def after_rejection_def a_pl_def b_pl_def)
  have g: "map phase (runs (exec file_path (initial True)
        (DidOpen a_pl # ConfigurationSettled 0 (Inl request_failed) # after_rejection))) =
     [Thrown request_failed, Thrown request_failed, AwaitSettings (Request 1)]"
    by (simp add: run_defs Let_def after_rejection_def a_pl_def b_pl_def)
  note kept = rejected_settings_stay_cached
      [where e = request_failed and fsPath = file_path, OF a b c' d, unfolded Let_def e]
  have h: "uri a_pl = ''file:///a.pl''"
    by (simp add: a_pl_def)
  from kept have "\<forall>d. uri d = ''file:///a.pl'' \<longrightarrow>
      documentSettings
        (step file_path (exec file_path (initial True)
           (DidOpen a_pl # ConfigurationSettled 0 (Inl request_failed) # after_rejection))
           (DidClose d)) ''file:///a.pl'' = None"
    by (elim conjE)
  with h have i: "documentSettings
        (step file_path (exec file_path (initial True)
           (DidOpen a_pl # ConfigurationSettled 0 (Inl request_failed) # after_rejection))
           (DidClose a_pl)) ''file:///a.pl'' = None"
    by (elim allE [of _ a_pl] impE)
  from kept have j: "fst (getDocumentSettings
     (exec file_path (initial True)
        (DidOpen a_pl # ConfigurationSettled 0 (Inl request_failed) # after_rejection)) ''file:///a.pl'') =
     Request 0"
    by (elim conjE) (simp del: step.simps)
  show ?thesis
    by (intro conjI a b c d' j f g h i)
qed

subsection \<open>What a suspended run remembers\<close>

lemma run_ok_update:
  "list_all (run_ok fsPath) xs \<Longrightarrow> run_ok fsPath y \<Longrightarrow> list_all (run_ok fsPath) (xs[r := y])"
  by (auto simp: list_all_iff dest: subsetD [OF set_update_subset_insert])

lemma run_ok_nth: "list_all (run_ok fsPath) xs \<Longrightarrow> r < length xs \<Longrightarrow> run_ok fsPath (xs ! r)"
  by (simp add: list_all_length)

lemma run_ok_validate:
  "list_all (run_ok fsPath) (runs s) \<Longrightarrow> list_all (run_ok fsPath) (runs (validatePerlDocument s d))"
  by (simp add: validate_runs run_ok_def)

lemma run_ok_revalidate:
  "list_all (run_ok fsPath) (runs s) \<Longrightarrow>
   list_all (run_ok fsPath) (runs (foldl validatePerlDocument s ds))"
  by (induction ds arbitrary: s) (simp_all add: run_ok_validate)

lemma run_ok_resume_run:
  assumes "list_all (run_ok fsPath) (runs s)" and "run_ok fsPath x"
  shows "list_all (run_ok fsPath) (runs (resume_run fsPath s r x))"
proof (cases "phase x")
  case (AwaitSettings th)
  with assms show ?thesis
    by (auto simp: resume_run_def segment_runs run_ok_def intro!: run_ok_update
        split: promise.splits sum.splits)
next
  case (AwaitFolders st fp)
  with assms show ?thesis
    by (auto simp: resume_run_def segment_runs run_ok_def intro!: run_ok_update
        split: promise.splits option.splits)
next
  case AwaitCompile
  with assms show ?thesis
    by (auto simp: resume_run_def segment_runs run_ok_def intro!: run_ok_update
        split: promise.splits option.splits)
next
  case (AwaitCritic dp)
  with assms show ?thesis
    by (auto simp: resume_run_def segment_runs run_ok_def intro!: run_ok_update
        split: promise.splits option.splits)
next
  case Returned
  with assms show ?thesis by (simp add: resume_run_def)
next
  case (Thrown e)
  with assms show ?thesis by (simp add: resume_run_def)
qed

lemma run_ok_step:
  assumes inv: "list_all (run_ok fsPath) (runs s)"
  shows "list_all (run_ok fsPath) (runs (step fsPath s e))"
proof (cases e)
  case (DidOpen d)
  have "list_all (run_ok fsPath) (runs (s\<lparr>documents := docs_set (documents s) d\<rparr>))"
    using inv by simp
  from run_ok_validate [OF this] DidOpen show ?thesis by simp
next
  case (DidSave d)
  with run_ok_validate [OF inv] show ?thesis by simp
next
  case (DidClose d)
  with inv show ?thesis by (simp add: onDidClose_def)
next
  case (DidChangeConfiguration c)
  from step_change [of fsPath s c] show ?thesis
  proof (elim disjE exE conjE)
    assume "step fsPath s (DidChangeConfiguration c) = s"
    with inv DidChangeConfiguration show ?thesis by simp
  next
    fix s1
    assume s1: "step fsPath s (DidChangeConfiguration c) =
        foldl validatePerlDocument s1 (documents s)" "runs s1 = runs s"
    from inv s1(2) have "list_all (run_ok fsPath) (runs s1)" by simp
    from run_ok_revalidate [OF this] s1(1) show ?thesis
      unfolding DidChangeConfiguration by simp
  qed
next
  case DidChangeWatchedFiles
  with inv show ?thesis by simp
next
  case (ConfigurationSettled i res)
  with inv show ?thesis by (simp add: settle_request_def)
next
  case (WorkspaceFoldersSettled r res)
  show ?thesis
  proof (cases "r < length (runs s) \<and> pFolders (runs s ! r) = Some Pending")
    case True
    then have "r < length (runs s)" by simp
    from run_ok_nth [OF inv this] have "run_ok fsPath ((runs s ! r)\<lparr>pFolders := Some (settle res)\<rparr>)"
      by (simp add: run_ok_def split: phase.splits)
    from run_ok_update [OF inv this] True WorkspaceFoldersSettled show ?thesis
      by (simp add: settle_folders_def set_run_fields)
  next
    case False
    with inv WorkspaceFoldersSettled show ?thesis by (auto simp: settle_folders_def)
  qed
next
  case (PerlcompileSettled r res)
  show ?thesis
  proof (cases "r < length (runs s) \<and> pCompile (runs s ! r) = Some Pending")
    case True
    then have "r < length (runs s)" by simp
    from run_ok_nth [OF inv this] True
    have "run_ok fsPath ((runs s ! r)\<lparr>pCompile := Some (settle res)\<rparr>)"
      by (auto simp: run_ok_def split: phase.splits)
    from run_ok_update [OF inv this] True PerlcompileSettled show ?thesis
      by (simp add: settle_compile_def set_run_fields)
  next
    case False
    with inv PerlcompileSettled show ?thesis by (auto simp: settle_compile_def)
  qed
next
  case (PerlcriticSettled r res)
  show ?thesis
  proof (cases "r < length (runs s) \<and> pCritic (runs s ! r) = Some Pending")
    case True
    then have "r < length (runs s)" by simp
    from run_ok_nth [OF inv this]
    have "run_ok fsPath ((runs s ! r)\<lparr>pCritic := Some (settle res)\<rparr>)"
      by (simp add: run_ok_def split: phase.splits)
    from run_ok_update [OF inv this] True PerlcriticSettled show ?thesis
      by (simp add: settle_critic_def set_run_fields)
  next
    case False
    with inv PerlcriticSettled show ?thesis by (auto simp: settle_critic_def)
  qed
next
  case (Resume r)
  show ?thesis
  proof (cases "r < length (runs s)")
    case True
    from run_ok_resume_run [OF inv run_ok_nth [OF inv True]] True Resume show ?thesis
      by (simp add: resume_def)
  next
    case False
    with inv Resume show ?thesis by (simp add: resume_def)
  qed
qed

lemma run_ok_exec:
  "list_all (run_ok fsPath) (runs s) \<Longrightarrow> list_all (run_ok fsPath) (runs (exec fsPath s es))"
  by (induction es arbitrary: s) (simp_all add: exec_Nil exec_Cons run_ok_step)

lemma run_ok_reachable: "list_all (run_ok fsPath) (runs (exec fsPath (initial cap) es))"
  by (rule run_ok_exec) (simp add: initial_def)

lemma stage2_of_reachable:
  assumes inv: "list_all (run_ok fsPath) (runs s)"
    and r: "r < length (runs s)"
    and ph: "phase (runs s ! r) = AwaitCritic p"
    and pc: "pCompile (runs s ! r) = Some (Fulfilled dp)"
    and pl: "pCritic (runs s ! r) = Some (Fulfilled dc)"
  shows "publishes (effects (step fsPath s (Resume r))) =
           publishes (effects s) @ [(uri (textDocument (runs s ! r)), dp @ dc)]"
proof -
  from run_ok_nth [OF inv r] ph pc have "p = dp"
    by (simp add: run_ok_def)
  with r ph pl have "resume fsPath s r = stage2 s r (runs s ! r) dp dc"
    by (simp add: resume_def resume_run_def)
  then show ?thesis
    by (simp add: segment_effects publishes_append)
qed

subsection \<open>Dispatch\<close>

lemma getDocumentSettings_effects:
  "\<exists>new. effects (snd (getDocumentSettings s u)) = effects s @ new"
  by (simp add: getDocumentSettings_def Let_def split: option.splits)

lemma validate_effects: "\<exists>new. effects (validatePerlDocument s d) = effects s @ new"
  using getDocumentSettings_effects [of s "uri d"] by (simp add: validate_cache)

lemma revalidate_effects: "\<exists>new. effects (foldl validatePerlDocument s ds) = effects s @ new"
proof (induction ds arbitrary: s)
  case Nil
  show ?case by simp
next
  case (Cons d ds)
  obtain a where a: "effects (validatePerlDocument s d) = effects s @ a"
    using validate_effects [of s d] by (elim exE)
  obtain b where b: "effects (foldl validatePerlDocument (validatePerlDocument s d) ds) =
      effects (validatePerlDocument s d) @ b"
    using Cons.IH [of "validatePerlDocument s d"] by (elim exE)
  have "effects (foldl validatePerlDocument s (d # ds)) = effects s @ (a @ b)"
    by (simp add: a b)
  then show ?case by (rule exI)
qed

lemma resume_effects: "\<exists>new. effects (resume fsPath s r) = effects s @ new"
  by (simp add: resume_def resume_run_def segment_effects
      split: phase.splits promise.splits option.splits)

lemma step_effects: "\<exists>new. effects (step fsPath s e) = effects s @ new"
proof (cases e)
  case (DidOpen d)
  with validate_effects [of "s\<lparr>documents := docs_set (documents s) d\<rparr>" d]
  show ?thesis by simp
next
  case (DidSave d)
  with validate_effects [of s d] show ?thesis by simp
next
  case (DidChangeConfiguration c)
  from step_change [of fsPath s c] show ?thesis
  proof (elim disjE exE conjE)
    assume "step fsPath s (DidChangeConfiguration c) = s"
    with DidChangeConfiguration show ?thesis by simp
  next
    fix s1
    assume s1: "step fsPath s (DidChangeConfiguration c) =
        foldl validatePerlDocument s1 (documents s)" "effects s1 = effects s"
    from revalidate_effects [of s1 "documents s"] s1 show ?thesis
      unfolding DidChangeConfiguration by simp
  qed
next
  case (Resume r)
  with resume_effects [of fsPath s r] show ?thesis by simp
qed (simp_all add: onDidClose_def settle_request_def settle_folders_def settle_compile_def
      settle_critic_def set_run_fields)

lemma started_both_step: "started_both s r \<Longrightarrow> started_both (step fsPath s e) r"
proof -
  obtain new where "effects (step fsPath s e) = effects s @ new"
    using step_effects [of fsPath s e] by (elim exE)
  then show "started_both s r \<Longrightarrow> started_both (step fsPath s e) r"
    by (simp add: started_both_def list_ex_iff) blast
qed

lemma revalidate_new_runs:
  "\<exists>new. runs (foldl validatePerlDocument s ds) = runs s @ new \<and>
         list_all (\<lambda>x. \<not> awaits_analysis (phase x)) new"
proof (induction ds arbitrary: s)
  case Nil
  show ?case by simp
next
  case (Cons d ds)
  define x where "x = \<lparr>textDocument = d, phase = AwaitSettings (fst (getDocumentSettings s (uri d))),
                pFolders = None, pCompile = None, pCritic = None\<rparr>"
  have x: "runs (validatePerlDocument s d) = runs s @ [x]" "\<not> awaits_analysis (phase x)"
    by (simp_all add: validate_runs x_def)
  from Cons.IH [of "validatePerlDocument s d"] obtain new where
    new: "runs (foldl validatePerlDocument (validatePerlDocument s d) ds) =
            runs (validatePerlDocument s d) @ new"
      "list_all (\<lambda>x. \<not> awaits_analysis (phase x)) new"
    by (elim exE conjE)
  have "runs (foldl validatePerlDocument s (d # ds)) = runs s @ (x # new)"
    by (simp add: new(1) x(1))
  moreover have "list_all (\<lambda>x. \<not> awaits_analysis (phase x)) (x # new)"
    by (simp add: new(2) x(2))
  ultimately show ?case by (intro exI [of _ "x # new"] conjI)
qed

lemma step_new_runs:
  assumes "r < length (runs (step fsPath s e))" and "\<not> r < length (runs s)"
  shows "\<not> awaits_analysis (phase (runs (step fsPath s e) ! r))"
proof (cases e)
  case (DidOpen d)
  with assms show ?thesis by (simp add: validate_runs nth_append)
next
  case (DidSave d)
  with assms show ?thesis by (simp add: validate_runs nth_append)
next
  case (DidClose d)
  with assms show ?thesis by (simp add: onDidClose_def)
next
  case (DidChangeConfiguration c)
  from step_change [of fsPath s c] show ?thesis
  proof (elim disjE exE conjE)
    assume "step fsPath s (DidChangeConfiguration c) = s"
    with assms DidChangeConfiguration show ?thesis by simp
  next
    fix s1
    assume s1: "step fsPath s (DidChangeConfiguration c) =
        foldl validatePerlDocument s1 (documents s)" "runs s1 = runs s"
    obtain new where new: "runs (foldl validatePerlDocument s1 (documents s)) = runs s1 @ new"
      "list_all (\<lambda>x. \<not> awaits_analysis (phase x)) new"
      using revalidate_new_runs [of s1 "documents s"] by (elim exE conjE)
    have run: "runs (step fsPath s e) = runs s @ new"
      using DidChangeConfiguration new(1) s1 by simp
    with assms have "r - length (runs s) < length new" by simp
    with new(2) have "\<not> awaits_analysis (phase (new ! (r - length (runs s))))"
      by (simp add: list_all_length)
    with assms(2) show ?thesis by (simp add: run nth_append)
  qed
next
  case DidChangeWatchedFiles
  with assms show ?thesis by simp
next
  case (ConfigurationSettled i res)
  with assms show ?thesis by (simp add: settle_request_def split: if_splits)
next
  case (WorkspaceFoldersSettled r' res)
  with assms show ?thesis by (simp add: settle_folders_def set_run_fields split: if_splits)
next
  case (PerlcompileSettled r' res)
  with assms show ?thesis by (simp add: settle_compile_def set_run_fields split: if_splits)
next
  case (PerlcriticSettled r' res)
  with assms show ?thesis by (simp add: settle_critic_def set_run_fields split: if_splits)
next
  case (Resume r')
  obtain y where "runs (resume_run fsPath s r' (runs s ! r')) = (runs s)[r' := y]"
    using resume_run_runs [of fsPath s r' "runs s ! r'"] by (elim exE)
  with assms Resume show ?thesis by (simp add: resume_def split: if_splits)
qed

lemma resume_same_run:
  assumes r: "r < length (runs s)"
    and inv: "awaits_analysis (phase (runs s ! r)) \<Longrightarrow> started_both s r"
    and after: "awaits_analysis (phase (runs (resume fsPath s r) ! r))"
  shows "started_both (resume fsPath s r) r"
proof (cases "awaits_analysis (phase (runs s ! r))")
  case True
  from started_both_step [where e = "Resume r" and fsPath = fsPath, OF inv [OF True]] show ?thesis by simp
next
  case False
  show ?thesis
  proof (cases "phase (runs s ! r)")
    case (AwaitSettings th)
    with r after show ?thesis
      by (simp add: resume_def resume_run_def segment_runs split: promise.splits sum.splits)
  next
    case (AwaitFolders st fp)
    with r after show ?thesis
      by (simp add: resume_def resume_run_def segment_runs segment_effects started_both_def
          split: promise.splits option.splits)
  next
    case AwaitCompile
    with False show ?thesis by simp
  next
    case (AwaitCritic dp)
    with False show ?thesis by simp
  next
    case Returned
    with r after show ?thesis by (simp add: resume_def resume_run_def)
  next
    case (Thrown e)
    with r after show ?thesis by (simp add: resume_def resume_run_def)
  qed
qed

lemma dispatch_invariant_step:
  assumes inv: "\<And>r. r < length (runs s) \<Longrightarrow> awaits_analysis (phase (runs s ! r)) \<Longrightarrow>
                  started_both s r"
    and r: "r < length (runs (step fsPath s e))"
    and after: "awaits_analysis (phase (runs (step fsPath s e) ! r))"
  shows "started_both (step fsPath s e) r"
proof (cases "r < length (runs s)")
  case False
  with step_new_runs [OF r] after show ?thesis by simp
next
  case True
  show ?thesis
  proof (cases "e = Resume r")
    case same: True
    from after have "awaits_analysis (phase (runs (resume fsPath s r) ! r))"
      by (simp add: same)
    from resume_same_run [OF True inv [OF True] this] show ?thesis
      by (simp add: same)
  next
    case other: False
    from step_run_frame [OF True other] after
    have "awaits_analysis (phase (runs s ! r))" by simp
    from started_both_step [OF inv [OF True this]] show ?thesis .
  qed
qed

lemma dispatch_invariant_exec:
  "(\<And>r. r < length (runs s) \<Longrightarrow> awaits_analysis (phase (runs s ! r)) \<Longrightarrow> started_both s r) \<Longrightarrow>
   r < length (runs (exec fsPath s es)) \<Longrightarrow> awaits_analysis (phase (runs (exec fsPath s es) ! r)) \<Longrightarrow>
   started_both (exec fsPath s es) r"
proof (induction es arbitrary: s r)
  case Nil
  then show ?case by (simp add: exec_Nil)
next
  case (Cons e es)
  have "started_both (step fsPath s e) q"
    if "q < length (runs (step fsPath s e))" "awaits_analysis (phase (runs (step fsPath s e) ! q))" for q
    using Cons.prems(1) that by (rule dispatch_invariant_step)
  from Cons.IH [where s = "step fsPath s e" and r = r, OF this] Cons.prems(2,3) show ?case
    by (simp add: exec_Cons)
qed

text \<open>
  Claim C5. When a run gets the workspace folders, one uninterrupted step calls
  \<^verbatim>\<open>perlcompile\<close> and then \<^verbatim>\<open>perlcritic\<close>, and only then does the run wait for the
  fast check, with both results still outstanding. Before that step no result of the
  fast check can arrive. So in every state the server reaches, a run that waits for the
  result of an analysis has started both analyses. The file path that both calls get
  is the one parsed from the URI of the run's document.
\<close>

theorem analyses_started_before_results_awaited:
  "(r < length (runs s) \<and> phase (runs s ! r) = AwaitFolders settings filePath \<and>
    pFolders (runs s ! r) = Some (Fulfilled workspaceFolders) \<longrightarrow>
      effects (step fsPath s (Resume r)) =
        effects s @
          [Perlcompile r filePath workspaceFolders settings,
           Perlcritic r filePath workspaceFolders settings] \<and>
      phase (runs (step fsPath s (Resume r)) ! r) = AwaitCompile \<and>
      pCompile (runs (step fsPath s (Resume r)) ! r) = Some Pending \<and>
      pCritic (runs (step fsPath s (Resume r)) ! r) = Some Pending) \<and>
   (r < length (runs s) \<and> pCompile (runs s ! r) = None \<longrightarrow>
      step fsPath s (PerlcompileSettled r res) = s) \<and>
   (r < length (runs (exec fsPath (initial cap) es)) \<and>
    awaits_analysis (phase (runs (exec fsPath (initial cap) es) ! r)) \<longrightarrow>
      started_both (exec fsPath (initial cap) es) r) \<and>
   (r < length (runs (exec fsPath (initial cap) es)) \<and>
    phase (runs (exec fsPath (initial cap) es) ! r) = AwaitFolders settings filePath \<longrightarrow>
      fsPath (uri (textDocument (runs (exec fsPath (initial cap) es) ! r))) = Inr filePath)"
proof (intro conjI impI)
  assume a: "r < length (runs s) \<and> phase (runs s ! r) = AwaitFolders settings filePath \<and>
    pFolders (runs s ! r) = Some (Fulfilled workspaceFolders)"
  then have d: "resume fsPath s r = dispatch s r (runs s ! r) settings filePath workspaceFolders"
    by (simp add: resume_def resume_run_def)
  show "effects (step fsPath s (Resume r)) =
        effects s @
          [Perlcompile r filePath workspaceFolders settings,
           Perlcritic r filePath workspaceFolders settings]"
    by (simp add: d segment_effects)
  show "phase (runs (step fsPath s (Resume r)) ! r) = AwaitCompile"
    using a by (simp add: d segment_runs)
  show "pCompile (runs (step fsPath s (Resume r)) ! r) = Some Pending"
    using a by (simp add: d segment_runs)
  show "pCritic (runs (step fsPath s (Resume r)) ! r) = Some Pending"
    using a by (simp add: d segment_runs)
next
  assume "r < length (runs s) \<and> pCompile (runs s ! r) = None"
  then show "step fsPath s (PerlcompileSettled r res) = s"
    by (simp add: settle_compile_def)
next
  assume a: "r < length (runs (exec fsPath (initial cap) es)) \<and>
    awaits_analysis (phase (runs (exec fsPath (initial cap) es) ! r))"
  have "started_both (initial cap) q"
    if "q < length (runs (initial cap))" for q
    using that by (simp add: initial_def)
  from dispatch_invariant_exec [where s = "initial cap" and r = r and es = es and fsPath = fsPath, OF this] a
  show "started_both (exec fsPath (initial cap) es) r" by simp
next
  assume a: "r < length (runs (exec fsPath (initial cap) es)) \<and>
    phase (runs (exec fsPath (initial cap) es) ! r) = AwaitFolders settings filePath"
  then have "run_ok fsPath (runs (exec fsPath (initial cap) es) ! r)"
    by (intro run_ok_nth [OF run_ok_reachable]) simp
  with a show "fsPath (uri (textDocument (runs (exec fsPath (initial cap) es) ! r))) = Inr filePath"
    by (simp add: run_ok_def)
qed

theorem analyses_started_before_results_awaited_witness:
  "phase (runs (exec file_path (initial False) [DidOpen a_pl, Resume 0, WorkspaceFoldersSettled 0 (Inr None)]) ! 0) =
     AwaitFolders defaultSettings ''/a.pl'' \<and>
   pFolders (runs (exec file_path (initial False) [DidOpen a_pl, Resume 0, WorkspaceFoldersSettled 0 (Inr None)]) ! 0) =
     Some (Fulfilled None) \<and>
   pCompile (runs (exec file_path (initial False) [DidOpen a_pl, Resume 0, WorkspaceFoldersSettled 0 (Inr None)]) ! 0) =
     None \<and>
   effects (exec file_path (initial False)
      [DidOpen a_pl, Resume 0, WorkspaceFoldersSettled 0 (Inr None), Resume 0]) =
     [GetWorkspaceFolders 0, Perlcompile 0 ''/a.pl'' None defaultSettings,
      Perlcritic 0 ''/a.pl'' None defaultSettings] \<and>
   exec file_path (initial False)
      [DidOpen a_pl, Resume 0, WorkspaceFoldersSettled 0 (Inr None), PerlcompileSettled 0 (Inr [])] =
     exec file_path (initial False) [DidOpen a_pl, Resume 0, WorkspaceFoldersSettled 0 (Inr None)] \<and>
   awaits_analysis (phase (runs (exec file_path (initial False) first_run_start) ! 0)) \<and>
   started_both (exec file_path (initial False) first_run_start) 0 \<and>
   file_path (uri (textDocument (runs (exec file_path (initial False)
      [DidOpen a_pl, Resume 0, WorkspaceFoldersSettled 0 (Inr None)]) ! 0))) = Inr ''/a.pl''"
proof -
  let ?s = "exec file_path (initial False) [DidOpen a_pl, Resume 0, WorkspaceFoldersSettled 0 (Inr None)]"
  have a: "0 < length (runs ?s)" "phase (runs ?s ! 0) = AwaitFolders defaultSettings ''/a.pl''"
    "pFolders (runs ?s ! 0) = Some (Fulfilled None)" "pCompile (runs ?s ! 0) = None"
    "uri (textDocument (runs ?s ! 0)) = ''file:///a.pl''" "effects ?s = [GetWorkspaceFolders 0]"
    by (simp_all add: run_defs a_pl_def)
  have b: "exec file_path (initial False)
      [DidOpen a_pl, Resume 0, WorkspaceFoldersSettled 0 (Inr None), Resume 0] = step file_path ?s (Resume 0)"
    "exec file_path (initial False)
      [DidOpen a_pl, Resume 0, WorkspaceFoldersSettled 0 (Inr None), PerlcompileSettled 0 (Inr [])] =
      step file_path ?s (PerlcompileSettled 0 (Inr []))"
    by (simp_all add: exec_def)
  have c: "0 < length (runs (exec file_path (initial False) first_run_start))"
    "awaits_analysis (phase (runs (exec file_path (initial False) first_run_start) ! 0))"
    by (simp_all add: run_defs example_defs)
  show ?thesis
    using analyses_started_before_results_awaited
        [where r = 0 and s = "?s" and settings = defaultSettings and filePath = "''/a.pl''"
           and workspaceFolders = None and fsPath = file_path and res = "Inr []" and cap = False
           and es = "[]"]
      analyses_started_before_results_awaited
        [where r = 0 and s = "?s" and settings = defaultSettings and filePath = "''/a.pl''"
           and workspaceFolders = None and fsPath = file_path and res = "Inr []" and cap = False
           and es = first_run_start]
      analyses_started_before_results_awaited
        [where r = 0 and s = "?s" and settings = defaultSettings and filePath = "''/a.pl''"
           and workspaceFolders = None and fsPath = file_path and res = "Inr []" and cap = False
           and es = "[DidOpen a_pl, Resume 0, WorkspaceFoldersSettled 0 (Inr None)]"] a c
    unfolding b by simp
qed

subsection \<open>Two runs in a row\<close>

text \<open>
  Claim C8. In any execution of the server, take a run that is resumed on its lint
  result, its fast check having delivered \<open>dp\<close> and its lint check \<open>dc\<close>, and a run of the
  same document that is resumed on its lint result later, with the same two results.
  Both resumptions publish the same list, \<open>dp\<close> followed by \<open>dc\<close>. Two consecutive runs
  with no edit in between are such a pair.
\<close>

theorem consecutive_runs_same_stage2:
  assumes "r1 < length (runs (exec fsPath (initial cap) es1))"
    and "phase (runs (exec fsPath (initial cap) es1) ! r1) = AwaitCritic p1"
    and "pCompile (runs (exec fsPath (initial cap) es1) ! r1) = Some (Fulfilled dp)"
    and "pCritic (runs (exec fsPath (initial cap) es1) ! r1) = Some (Fulfilled dc)"
    and "r2 < length (runs (exec fsPath (initial cap) (es1 @ Resume r1 # es2)))"
    and "phase (runs (exec fsPath (initial cap) (es1 @ Resume r1 # es2)) ! r2) = AwaitCritic p2"
    and "pCompile (runs (exec fsPath (initial cap) (es1 @ Resume r1 # es2)) ! r2) =
           Some (Fulfilled dp)"
    and "pCritic (runs (exec fsPath (initial cap) (es1 @ Resume r1 # es2)) ! r2) =
           Some (Fulfilled dc)"
    and "uri (textDocument (runs (exec fsPath (initial cap) (es1 @ Resume r1 # es2)) ! r2)) =
           uri (textDocument (runs (exec fsPath (initial cap) es1) ! r1))"
  shows "let s1 = exec fsPath (initial cap) es1;
             s2 = exec fsPath (initial cap) (es1 @ Resume r1 # es2);
             u = uri (textDocument (runs s1 ! r1))
         in publishes (effects (step fsPath s1 (Resume r1))) =
              publishes (effects s1) @ [(u, dp @ dc)] \<and>
            publishes (effects (step fsPath s2 (Resume r2))) =
              publishes (effects s2) @ [(u, dp @ dc)]"
proof -
  note first = stage2_of_reachable [OF run_ok_reachable assms(1-4)]
  note second = stage2_of_reachable [OF run_ok_reachable assms(5-8)]
  show ?thesis
    unfolding Let_def using first second by (simp only: assms(9) simp_thms)
qed

theorem consecutive_runs_same_stage2_witness:
  "phase (runs (exec file_path (initial True) opened_and_checked) ! 0) = AwaitCritic [syntax_error] \<and>
   pCompile (runs (exec file_path (initial True) opened_and_checked) ! 0) =
     Some (Fulfilled [syntax_error]) \<and>
   pCritic (runs (exec file_path (initial True) opened_and_checked) ! 0) =
     Some (Fulfilled [missing_strict]) \<and>
   phase (runs (exec file_path (initial True)
      (opened_and_checked @ Resume 0 # saved_and_checked)) ! 1) = AwaitCritic [syntax_error] \<and>
   pCompile (runs (exec file_path (initial True)
      (opened_and_checked @ Resume 0 # saved_and_checked)) ! 1) = Some (Fulfilled [syntax_error]) \<and>
   pCritic (runs (exec file_path (initial True)
      (opened_and_checked @ Resume 0 # saved_and_checked)) ! 1) = Some (Fulfilled [missing_strict]) \<and>
   publishes (effects (step file_path (exec file_path (initial True) opened_and_checked) (Resume 0))) =
     [(''file:///a.pl'', [syntax_error]), (''file:///a.pl'', [syntax_error, missing_strict])] \<and>
   publishes (effects (step file_path
      (exec file_path (initial True) (opened_and_checked @ Resume 0 # saved_and_checked)) (Resume 1))) =
     [(''file:///a.pl'', [syntax_error]), (''file:///a.pl'', [syntax_error, missing_strict]),
      (''file:///a.pl'', [syntax_error, missing_strict]),
      (''file:///a.pl'', [syntax_error, missing_strict])]"
proof -
  let ?s1 = "exec file_path (initial True) opened_and_checked"
  let ?s2 = "exec file_path (initial True) (opened_and_checked @ Resume 0 # saved_and_checked)"
  have a: "0 < length (runs ?s1)" "phase (runs ?s1 ! 0) = AwaitCritic [syntax_error]"
    "pCompile (runs ?s1 ! 0) = Some (Fulfilled [syntax_error])"
    "pCritic (runs ?s1 ! 0) = Some (Fulfilled [missing_strict])"
    by (simp_all add: run_defs Let_def example_defs opened_and_checked_def)
  have b: "1 < length (runs ?s2)" "phase (runs ?s2 ! 1) = AwaitCritic [syntax_error]"
    "pCompile (runs ?s2 ! 1) = Some (Fulfilled [syntax_error])"
    "pCritic (runs ?s2 ! 1) = Some (Fulfilled [missing_strict])"
    by (simp_all add: run_defs Let_def example_defs opened_and_checked_def saved_and_checked_def)
  have c: "uri (textDocument (runs ?s1 ! 0)) = ''file:///a.pl''"
    "uri (textDocument (runs ?s2 ! 1)) = ''file:///a.pl''"
    by (simp_all add: run_defs Let_def example_defs opened_and_checked_def saved_and_checked_def)
  have d: "uri (textDocument (runs ?s2 ! 1)) = uri (textDocument (runs ?s1 ! 0))"
    by (simp only: c)
  have e: "publishes (effects ?s1) = [(''file:///a.pl'', [syntax_error])]"
    by (simp add: run_defs Let_def example_defs opened_and_checked_def)
  have f: "publishes (effects ?s2) =
      [(''file:///a.pl'', [syntax_error]), (''file:///a.pl'', [syntax_error, missing_strict]),
       (''file:///a.pl'', [syntax_error, missing_strict])]"
    by (simp add: run_defs Let_def example_defs opened_and_checked_def saved_and_checked_def)
  note both = consecutive_runs_same_stage2 [OF a b d, unfolded Let_def c e f]
  from both have g: "publishes (effects (step file_path ?s1 (Resume 0))) =
      [(''file:///a.pl'', [syntax_error]), (''file:///a.pl'', [syntax_error, missing_strict])]"
    by simp
  from both have h: "publishes (effects (step file_path ?s2 (Resume 1))) =
     [(''file:///a.pl'', [syntax_error]), (''file:///a.pl'', [syntax_error, missing_strict]),
      (''file:///a.pl'', [syntax_error, missing_strict]),
      (''file:///a.pl'', [syntax_error, missing_strict])]"
    by simp
  show ?thesis
    by (intro conjI a(2-4) b(2-4) g h)
qed

subsection \<open>Who writes the retention store\<close>

lemma resume_diags:
  "\<not> lint_completion s (Resume r) \<Longrightarrow> documentDiags (resume fsPath s r) = documentDiags s"
proof -
  assume "\<not> lint_completion s (Resume r)"
  then have "r < length (runs s) \<Longrightarrow>
      \<not> (\<exists>dp dc. phase (runs s ! r) = AwaitCritic dp \<and> pCritic (runs s ! r) = Some (Fulfilled dc))"
    by (auto simp: lint_completion_def)
  then show ?thesis
    by (simp add: resume_def resume_run_diags)
qed

lemma lint_completion_diags:
  assumes "lint_completion s (Resume r)"
  shows "\<exists>dc. documentDiags (resume fsPath s r) =
           (documentDiags s)(uri (textDocument (runs s ! r)) \<mapsto> dc)"
proof -
  from assms obtain dp dc where "r < length (runs s)" "phase (runs s ! r) = AwaitCritic dp"
    "pCritic (runs s ! r) = Some (Fulfilled dc)"
    by (auto simp: lint_completion_def split: phase.splits option.splits promise.splits)
  then have "resume fsPath s r = stage2 s r (runs s ! r) dp dc"
    by (simp add: resume_def resume_run_def)
  then have "documentDiags (resume fsPath s r) =
           (documentDiags s)(uri (textDocument (runs s ! r)) \<mapsto> dc)"
    by (simp add: segment_diags)
  then show ?thesis by (rule exI)
qed

lemma step_entry_frame:
  assumes "\<not> writes_entry s u e"
  shows "documentDiags (step fsPath s e) u = documentDiags s u"
proof (cases e)
  case (DidClose d)
  with assms show ?thesis by (simp add: onDidClose_def)
next
  case (DidChangeConfiguration c)
  from step_change [of fsPath s c] show ?thesis
    unfolding DidChangeConfiguration by (auto simp: revalidate_fields)
next
  case (Resume r)
  show ?thesis
  proof (cases "lint_completion s (Resume r)")
    case False
    with Resume show ?thesis by (simp add: resume_diags)
  next
    case True
    with assms Resume have other: "uri (textDocument (runs s ! r)) \<noteq> u" by simp
    from lint_completion_diags [OF True, of fsPath] obtain dc where
      "documentDiags (resume fsPath s r) =
         (documentDiags s)(uri (textDocument (runs s ! r)) \<mapsto> dc)"
      by (elim exE)
    with other Resume show ?thesis by simp
  qed
qed (simp_all add: validate_fields settle_request_def settle_folders_def settle_compile_def
      settle_critic_def set_run_fields)

lemma exec_entry_frame:
  "entry_untouched fsPath s u es \<Longrightarrow> documentDiags (exec fsPath s es) u = documentDiags s u"
proof (induction es arbitrary: s)
  case Nil
  show ?case by (simp add: exec_Nil)
next
  case (Cons e es)
  from Cons.prems have e: "\<not> writes_entry s u e"
    and es: "entry_untouched fsPath (step fsPath s e) u es"
    by simp_all
  have "documentDiags (exec fsPath s (e # es)) u = documentDiags (step fsPath s e) u"
    using Cons.IH [OF es] by (simp add: exec_Cons)
  also have "\<dots> = documentDiags s u"
    using e by (rule step_entry_frame)
  finally show ?case .
qed

text \<open>
  Claim C10, as stated, fails: while a run of \<^verbatim>\<open>a.pl\<close> still waits for its fast check, an
  overlapping run of the same document completes its lint check and writes the entry.
\<close>

theorem retention_store_overlapping_runs:
  "documentDiags (exec file_path (initial False) [DidOpen a_pl]) ''file:///a.pl'' = None \<and>
   phase (runs (exec file_path (initial False) overlapping_runs) ! 0) = AwaitCompile \<and>
   pCritic (runs (exec file_path (initial False) overlapping_runs) ! 0) = Some Pending \<and>
   documentDiags (exec file_path (initial False) overlapping_runs) ''file:///a.pl'' =
     Some [missing_strict]"
  by (simp add: run_defs example_defs overlapping_runs_def)

text \<open>
  Claim C10, amended. The store is written only by the lint completion of a run and by
  the close handler. Starting a run does not write it, and no resumption of a run other
  than its lint completion does, so stage 1 only reads it. A lint completion writes the
  entry of the run's own document and leaves every other key as it was. Hence the entry
  of a URI is what it was after any events among which there is no lint completion of a
  run of that URI and no closing of it; events of other documents, their lint
  completions and closings too, are allowed.
\<close>

theorem retention_store_entry_frame:
  "(entry_untouched fsPath s u es \<longrightarrow>
      documentDiags (exec fsPath s es) u = documentDiags s u) \<and>
   documentDiags (validatePerlDocument s d) = documentDiags s \<and>
   (\<not> lint_completion s (Resume r) \<longrightarrow>
      documentDiags (step fsPath s (Resume r)) = documentDiags s) \<and>
   (r < length (runs s) \<and> phase (runs s ! r) = AwaitCritic diagPerl \<and>
    pCritic (runs s ! r) = Some (Fulfilled diagCritic) \<longrightarrow>
      documentDiags (step fsPath s (Resume r)) =
        (documentDiags s)(uri (textDocument (runs s ! r)) \<mapsto> diagCritic) \<and>
      (\<forall>k. k \<noteq> uri (textDocument (runs s ! r)) \<longrightarrow>
         documentDiags (step fsPath s (Resume r)) k = documentDiags s k))"
proof (intro conjI impI)
  assume "entry_untouched fsPath s u es"
  then show "documentDiags (exec fsPath s es) u = documentDiags s u"
    by (rule exec_entry_frame)
next
  show "documentDiags (validatePerlDocument s d) = documentDiags s"
    by (simp add: validate_fields)
next
  assume "\<not> lint_completion s (Resume r)"
  then show "documentDiags (step fsPath s (Resume r)) = documentDiags s"
    by (simp add: resume_diags)
next
  assume a: "r < length (runs s) \<and> phase (runs s ! r) = AwaitCritic diagPerl \<and>
    pCritic (runs s ! r) = Some (Fulfilled diagCritic)"
  then have "resume fsPath s r = stage2 s r (runs s ! r) diagPerl diagCritic"
    by (simp add: resume_def resume_run_def)
  then show w: "documentDiags (step fsPath s (Resume r)) =
        (documentDiags s)(uri (textDocument (runs s ! r)) \<mapsto> diagCritic)"
    by (simp add: segment_diags)
  show "\<forall>k. k \<noteq> uri (textDocument (runs s ! r)) \<longrightarrow>
         documentDiags (step fsPath s (Resume r)) k = documentDiags s k"
    unfolding w by simp
qed

theorem retention_store_entry_frame_witness:
  "entry_untouched file_path (exec file_path (initial False) first_run) ''file:///a.pl''
     (b_opened @ b_closed_a_saved) \<and>
   documentDiags (exec file_path (initial False) first_run) ''file:///a.pl'' =
     Some [missing_strict] \<and>
   documentDiags (exec file_path (initial False) (first_run @ b_opened @ b_closed_a_saved))
     ''file:///a.pl'' = Some [missing_strict] \<and>
   \<not> lint_completion (exec file_path (initial False) first_run_start) (Resume 0) \<and>
   documentDiags (step file_path (exec file_path (initial False) first_run_start) (Resume 0))
     ''file:///a.pl'' = None \<and>
   1 < length (runs (exec file_path (initial False) (first_run @ b_opened))) \<and>
   phase (runs (exec file_path (initial False) (first_run @ b_opened)) ! 1) = AwaitCritic [] \<and>
   pCritic (runs (exec file_path (initial False) (first_run @ b_opened)) ! 1) =
     Some (Fulfilled [unused_variable]) \<and>
   documentDiags (step file_path (exec file_path (initial False) (first_run @ b_opened)) (Resume 1))
     ''file:///b.pl'' = Some [unused_variable] \<and>
   documentDiags (step file_path (exec file_path (initial False) (first_run @ b_opened)) (Resume 1))
     ''file:///a.pl'' = Some [missing_strict]"
proof -
  let ?s = "exec file_path (initial False) first_run"
  let ?t = "exec file_path (initial False) (first_run @ b_opened)"
  let ?q = "exec file_path (initial False) first_run_start"
  have a: "entry_untouched file_path ?s ''file:///a.pl'' (b_opened @ b_closed_a_saved)"
    by (simp add: run_defs example_defs b_opened_def b_closed_a_saved_def lint_completion_def)
  have b: "documentDiags ?s ''file:///a.pl'' = Some [missing_strict]"
    "documentDiags ?s ''file:///b.pl'' = None"
    by (simp_all add: run_defs example_defs)
  have c: "1 < length (runs ?t)" "phase (runs ?t ! 1) = AwaitCritic []"
    "pCritic (runs ?t ! 1) = Some (Fulfilled [unused_variable])"
    "uri (textDocument (runs ?t ! 1)) = ''file:///b.pl''"
    "documentDiags ?t ''file:///a.pl'' = Some [missing_strict]"
    by (simp_all add: run_defs example_defs b_opened_def)
  have d: "\<not> lint_completion ?q (Resume 0)" "documentDiags ?q ''file:///a.pl'' = None"
    by (simp_all add: run_defs example_defs lint_completion_def)
  have e: "exec file_path (initial False) (first_run @ b_opened @ b_closed_a_saved) =
      exec file_path ?s (b_opened @ b_closed_a_saved)"
    by (simp add: exec_append)
  note one = retention_store_entry_frame
    [where fsPath = file_path and s = "?s" and u = "''file:///a.pl''"
       and es = "b_opened @ b_closed_a_saved" and r = 0]
  note two = retention_store_entry_frame
    [where fsPath = file_path and s = "?q" and r = 0 and es = "[]"]
  note three = retention_store_entry_frame
    [where fsPath = file_path and s = "?t" and r = 1 and es = "[]" and diagPerl = "[]"
       and diagCritic = "[unused_variable]"]
  from one a b(1) have f: "documentDiags (exec file_path (initial False)
      (first_run @ b_opened @ b_closed_a_saved)) ''file:///a.pl'' = Some [missing_strict]"
    unfolding e by simp
  from two d have g: "documentDiags (step file_path ?q (Resume 0)) ''file:///a.pl'' = None"
    by (simp del: step.simps)
  from three c have h:
    "documentDiags (step file_path ?t (Resume 1)) ''file:///b.pl'' = Some [unused_variable]"
    "documentDiags (step file_path ?t (Resume 1)) ''file:///a.pl'' = Some [missing_strict]"
    by (simp_all del: step.simps)
  show ?thesis
    by (intro conjI a b(1) f d(1) g c(1-3) h)
qed

subsection \<open>A failing analysis\<close>






subsection \<open>A configuration change\<close>

lemma validate_with_capability:
  assumes "hasConfigurationCapability s"
  shows "documentSettings (validatePerlDocument s d) =
           (if documentSettings s (uri d) = None
            then (documentSettings s)(uri d \<mapsto> Request (length (requests s)))
            else documentSettings s)"
    and "requests (validatePerlDocument s d) =
           (if documentSettings s (uri d) = None then requests s @ [Pending] else requests s)"
  using assms
  by (auto simp: validate_cache getDocumentSettings_def Let_def split: option.splits)

lemma validate_without_capability:
  assumes "\<not> hasConfigurationCapability s"
  shows "documentSettings (validatePerlDocument s d) = documentSettings s"
    and "requests (validatePerlDocument s d) = requests s"
  using assms by (simp_all add: validate_cache getDocumentSettings_def)

lemma fresh_request_append:
  "fresh_request n s th \<Longrightarrow> requests t = requests s @ extra \<Longrightarrow> fresh_request n t th"
  by (cases th) (simp_all add: nth_append)

lemma cache_fresh_validate:
  assumes cap: "hasConfigurationCapability s"
    and n: "n \<le> length (requests s)"
    and inv: "cache_fresh n ds s"
  shows "cache_fresh n (ds @ [d]) (validatePerlDocument s d)"
  unfolding cache_fresh_def
proof
  fix u
  from inv have u: "case documentSettings s u of
             None \<Rightarrow> u \<notin> uri ` set ds
           | Some th \<Rightarrow> u \<in> uri ` set ds \<and> fresh_request n s th"
    by (simp add: cache_fresh_def)
  from inv have d: "case documentSettings s (uri d) of
             None \<Rightarrow> uri d \<notin> uri ` set ds
           | Some th \<Rightarrow> uri d \<in> uri ` set ds \<and> fresh_request n s th"
    by (simp add: cache_fresh_def)
  note v = validate_with_capability [OF cap, of d]
  show "case documentSettings (validatePerlDocument s d) u of
          None \<Rightarrow> u \<notin> uri ` set (ds @ [d])
        | Some th \<Rightarrow> u \<in> uri ` set (ds @ [d]) \<and> fresh_request n (validatePerlDocument s d) th"
  proof (cases "documentSettings s (uri d)")
    case (Some th)
    then have same: "documentSettings (validatePerlDocument s d) = documentSettings s"
      "requests (validatePerlDocument s d) = requests s @ []"
      by (simp_all add: v)
    from Some d have "uri d \<in> uri ` set ds" by simp
    with u show ?thesis
      by (cases "documentSettings s u")
        (auto simp: same(1) intro: fresh_request_append [OF _ same(2)])
  next
    case None
    then have new: "documentSettings (validatePerlDocument s d) =
        (documentSettings s)(uri d \<mapsto> Request (length (requests s)))"
      "requests (validatePerlDocument s d) = requests s @ [Pending]"
      by (simp_all add: v)
    show ?thesis
    proof (cases "u = uri d")
      case True
      with n show ?thesis by (simp add: new)
    next
      case False
      with u show ?thesis
        by (cases "documentSettings s u")
          (auto simp: new(1) intro: fresh_request_append [OF _ new(2)])
    qed
  qed
qed

lemma cache_fresh_revalidate:
  "hasConfigurationCapability s \<Longrightarrow> n \<le> length (requests s) \<Longrightarrow> cache_fresh n ds0 s \<Longrightarrow>
   cache_fresh n (ds0 @ ds) (foldl validatePerlDocument s ds)"
proof (induction ds arbitrary: s ds0)
  case Nil
  then show ?case by simp
next
  case (Cons d ds)
  have cap: "hasConfigurationCapability (validatePerlDocument s d)"
    using Cons.prems(1) by (simp add: validate_fields)
  have n: "n \<le> length (requests (validatePerlDocument s d))"
    using Cons.prems(2) by (simp add: validate_with_capability [OF Cons.prems(1)])
  have inv: "cache_fresh n (ds0 @ [d]) (validatePerlDocument s d)"
    using Cons.prems by (rule cache_fresh_validate)
  from Cons.IH [OF cap n inv] show ?case by simp
qed

lemma revalidate_without_capability:
  "\<not> hasConfigurationCapability s \<Longrightarrow>
   documentSettings (foldl validatePerlDocument s ds) = documentSettings s"
  by (induction ds arbitrary: s) (simp_all add: validate_without_capability validate_fields)

lemma revalidate_started:
  "\<exists>new. runs (foldl validatePerlDocument s ds) = runs s @ new \<and>
         map textDocument new = ds \<and> list_all just_started new"
proof (induction ds arbitrary: s)
  case Nil
  show ?case by simp
next
  case (Cons d ds)
  define x where "x = \<lparr>textDocument = d, phase = AwaitSettings (fst (getDocumentSettings s (uri d))),
                pFolders = None, pCompile = None, pCritic = None\<rparr>"
  have x: "runs (validatePerlDocument s d) = runs s @ [x]" "textDocument x = d" "just_started x"
    by (simp_all add: validate_runs x_def)
  from Cons.IH [of "validatePerlDocument s d"] obtain new where
    new: "runs (foldl validatePerlDocument (validatePerlDocument s d) ds) =
            runs (validatePerlDocument s d) @ new" "map textDocument new = ds"
      "list_all just_started new"
    by (elim exE conjE)
  have "runs (foldl validatePerlDocument s (d # ds)) = runs s @ (x # new)"
    by (simp add: new(1) x(1))
  moreover have "map textDocument (x # new) = d # ds"
    by (simp add: new(2) x(2))
  moreover have "list_all just_started (x # new)"
    using new(3) x(3) by simp
  ultimately show ?case by (intro exI [of _ "x # new"] conjI)
qed

lemma configuration_change_applies:
  "hasConfigurationCapability s \<or> change \<noteq> NoSettings \<Longrightarrow>
   \<exists>s1. applyConfigurationChange s change = Inr s1"
  by (cases change) (auto simp: applyConfigurationChange_def)

text \<open>
  What the handler does when its first part does not throw, that is, with the
  configuration capability or with settings that are not \<^verbatim>\<open>null\<close> or \<^verbatim>\<open>undefined\<close>.
  With the capability the cache is cleared, and when the handler returns it holds, for
  the URIs of the open documents and for no other, the fresh pending requests of the new
  runs. Without it the global settings become the payload's section, or the defaults.
  In both cases one run per open document starts, and no run that existed is changed.
\<close>

lemma configuration_change_revalidates:
  assumes ok: "applyConfigurationChange s change = Inr s1"
  shows "step fsPath s (DidChangeConfiguration change) =
           foldl validatePerlDocument s1 (documents s)"
    and "hasConfigurationCapability s \<Longrightarrow> documentSettings s1 = Map.empty"
    and "hasConfigurationCapability s \<Longrightarrow>
           globalSettings (step fsPath s (DidChangeConfiguration change)) = globalSettings s"
    and "hasConfigurationCapability s \<Longrightarrow>
           (case documentSettings (step fsPath s (DidChangeConfiguration change)) u of
              None \<Rightarrow> u \<notin> uri ` set (documents s)
            | Some th \<Rightarrow>
                u \<in> uri ` set (documents s) \<and>
                fresh_request (length (requests s))
                  (step fsPath s (DidChangeConfiguration change)) th)"
    and "\<not> hasConfigurationCapability s \<Longrightarrow> change = Settings section \<Longrightarrow>
           globalSettings (step fsPath s (DidChangeConfiguration change)) =
             (case section of None \<Rightarrow> defaultSettings | Some v \<Rightarrow> v)"
    and "\<not> hasConfigurationCapability s \<Longrightarrow>
           documentSettings (step fsPath s (DidChangeConfiguration change)) = documentSettings s"
    and "length (runs (step fsPath s (DidChangeConfiguration change))) =
           length (runs s) + length (documents s)"
    and "take (length (runs s)) (runs (step fsPath s (DidChangeConfiguration change))) = runs s"
    and "map textDocument
           (drop (length (runs s)) (runs (step fsPath s (DidChangeConfiguration change)))) =
           documents s"
    and "list_all just_started
           (drop (length (runs s)) (runs (step fsPath s (DidChangeConfiguration change))))"
proof -
  define s' where "s' = step fsPath s (DidChangeConfiguration change)"
  note frame = apply_change_frame [OF ok]
  have s': "s' = foldl validatePerlDocument s1 (documents s)"
    by (simp add: s'_def onDidChangeConfiguration_def ok frame)
  obtain new where new: "runs s' = runs s @ new" "map textDocument new = documents s"
    "list_all just_started new"
    using revalidate_started [of s1 "documents s"] unfolding s' frame by (elim exE conjE)
  have len: "length new = length (documents s)"
    using new(2) by (metis length_map)
  show "step fsPath s (DidChangeConfiguration change) =
           foldl validatePerlDocument s1 (documents s)"
    using s' by (simp only: s'_def)
  show empty: "documentSettings s1 = Map.empty" if "hasConfigurationCapability s"
    using that ok by (auto simp: applyConfigurationChange_def)
  show "globalSettings (step fsPath s (DidChangeConfiguration change)) = globalSettings s"
    if "hasConfigurationCapability s"
    unfolding s'_def [symmetric] using that ok
    by (auto simp: s' revalidate_fields applyConfigurationChange_def)
  show "case documentSettings (step fsPath s (DidChangeConfiguration change)) u of
              None \<Rightarrow> u \<notin> uri ` set (documents s)
            | Some th \<Rightarrow>
                u \<in> uri ` set (documents s) \<and>
                fresh_request (length (requests s))
                  (step fsPath s (DidChangeConfiguration change)) th"
    if cap: "hasConfigurationCapability s"
  proof -
    have "cache_fresh (length (requests s)) [] s1"
      by (simp add: cache_fresh_def empty [OF cap])
    from cache_fresh_revalidate [of s1 "length (requests s)" "[]" "documents s", OF _ _ this]
    have "cache_fresh (length (requests s)) (documents s) s'"
      using cap by (simp add: frame s')
    then show ?thesis
      unfolding cache_fresh_def s'_def by (rule allE)
  qed
  show "globalSettings (step fsPath s (DidChangeConfiguration change)) =
             (case section of None \<Rightarrow> defaultSettings | Some v \<Rightarrow> v)"
    if "\<not> hasConfigurationCapability s" "change = Settings section"
    unfolding s'_def [symmetric] using that ok
    by (auto simp: s' revalidate_fields applyConfigurationChange_def)
  show "documentSettings (step fsPath s (DidChangeConfiguration change)) = documentSettings s"
    if nocap: "\<not> hasConfigurationCapability s"
  proof -
    have "documentSettings s' = documentSettings s1"
      unfolding s' using nocap by (intro revalidate_without_capability) (simp add: frame)
    moreover have "documentSettings s1 = documentSettings s"
      using nocap ok
      by (auto simp: applyConfigurationChange_def split: ConfigurationChange.splits)
    ultimately show ?thesis by (simp add: s'_def)
  qed
  show "length (runs (step fsPath s (DidChangeConfiguration change))) =
           length (runs s) + length (documents s)"
    and "take (length (runs s)) (runs (step fsPath s (DidChangeConfiguration change))) = runs s"
    and "map textDocument
           (drop (length (runs s)) (runs (step fsPath s (DidChangeConfiguration change)))) =
           documents s"
    and "list_all just_started
           (drop (length (runs s)) (runs (step fsPath s (DidChangeConfiguration change))))"
    unfolding s'_def [symmetric] by (simp_all add: new len)
qed

text \<open>
  Claim C4 fails on one kind of event. Without the configuration capability, let a
  configuration change arrive whose settings are \<^verbatim>\<open>null\<close> or \<^verbatim>\<open>undefined\<close>, while
  \<^verbatim>\<open>a.pl\<close> is open and the global settings are not the defaults. The payload provides
  no section for this tool, so the claim has the global settings reset to the defaults
  and one run started. The handler throws a \<^verbatim>\<open>TypeError\<close> at line 109 instead: the
  global settings stay as they were and no run is started.
\<close>

theorem configuration_change_without_settings:
  "\<not> hasConfigurationCapability (exec file_path (initial False) settings_pushed) \<and>
   map uri (documents (exec file_path (initial False) settings_pushed)) = [''file:///a.pl''] \<and>
   globalSettings (exec file_path (initial False) settings_pushed) = other_perl \<and>
   other_perl \<noteq> defaultSettings \<and>
   onDidChangeConfiguration (exec file_path (initial False) settings_pushed) NoSettings =
     Inl TypeError \<and>
   globalSettings (exec file_path (initial False)
     (settings_pushed @ [DidChangeConfiguration NoSettings])) = other_perl \<and>
   length (runs (exec file_path (initial False) settings_pushed)) = 2 \<and>
   length (runs (exec file_path (initial False)
     (settings_pushed @ [DidChangeConfiguration NoSettings]))) = 2 \<and>
   globalSettings (exec file_path (initial False)
     (settings_pushed @ [DidChangeConfiguration (Settings None)])) = defaultSettings \<and>
   length (runs (exec file_path (initial False)
     (settings_pushed @ [DidChangeConfiguration (Settings None)]))) = 3"
  by (simp add: run_defs example_defs settings_pushed_def other_perl_def defaultSettings_def)

end
